theory Spec2Isabelle
  imports Main "HOL-Library.Word"
begin

section \<open>The distributed calculator: data model\<close>

text \<open>
  The program is the distributed calculator example of the actor framework
  (\<^verbatim>\<open>src/unnamed/part_000\<close>): a client actor with the behaviors \<^verbatim>\<open>unconnected\<close>
  and \<^verbatim>\<open>running\<close>, a read-eval-print loop that feeds it, and a server that publishes
  the calculator actor.

  C++ \<^verbatim>\<open>int\<close> is a 32-bit word, \<^verbatim>\<open>uint16_t\<close> a 16-bit word and \<^verbatim>\<open>unsigned long\<close> a
  64-bit word (LP64). An actor handle is a number; \<^verbatim>\<open>strong_actor_ptr\<close> and \<^verbatim>\<open>actor_addr\<close>
  may be null, which is \<open>None\<close>.
\<close>

type_synonym c_int = "32 word"
type_synonym uint16_t = "16 word"
type_synonym actor_id = nat
type_synonym strong_actor_ptr = "actor_id option"
type_synonym actor_addr = "actor_id option"
type_synonym node_id = nat

text \<open>\<^verbatim>\<open>std::variant<add_atom, sub_atom>\<close>, and \<^verbatim>\<open>struct task { op; lhs; rhs; }\<close>.\<close>

datatype atom = add_atom | sub_atom

record task =
  op :: atom
  lhs :: c_int
  rhs :: c_int

text \<open>\<^verbatim>\<open>struct state { strong_actor_ptr current_server; std::vector<task> tasks; }\<close>.\<close>

record state =
  current_server :: strong_actor_ptr
  tasks :: "task list"

text \<open>
  The messages the client's behaviors handle: \<^verbatim>\<open>(add_atom, int, int)\<close>,
  \<^verbatim>\<open>(sub_atom, int, int)\<close> and \<^verbatim>\<open>(connect_atom, std::string, uint16_t)\<close>.
\<close>

datatype message =
    arith_msg atom c_int c_int
  | connect_msg string uint16_t

text \<open>
  The timeout argument of \<^verbatim>\<open>request\<close>: \<^verbatim>\<open>caf::infinite\<close> or a duration in seconds.
  \<^verbatim>\<open>constexpr auto task_timeout = std::chrono::seconds(10)\<close>.
\<close>

datatype timeout = infinite_timeout | seconds nat

definition task_timeout :: timeout where
  "task_timeout = seconds 10"

text \<open>
  Modelled from the spec: the framework's \<^verbatim>\<open>error\<close> class is not part of the sources at
  hand. The values are the failure outcomes of section 4.2 (timeout elapsed, destination
  unreachable, destination rejected the message, destination handle gone) and the
  resolution and publish failures of section 7.
\<close>

datatype error =
    request_timeout
  | peer_unreachable
  | message_rejected
  | handle_gone
  | resolution_failed
  | publish_failed

text \<open>
  The lines the client writes with \<^verbatim>\<open>aout(self)\<close>, one constructor per output statement
  of the source, carrying the values the statement interpolates.
\<close>

datatype aout_line =
    lost_connection                           \<comment> \<open>\<^verbatim>\<open>*** lost connection to server\<close>\<close>
  | no_server_found string uint16_t           \<comment> \<open>\<^verbatim>\<open>*** no server found at "host":port\<close>\<close>
  | typed_actor_found string uint16_t         \<comment> \<open>\<^verbatim>\<open>*** typed actor found at ..., but expected an untyped actor\<close>\<close>
  | successfully_connected                    \<comment> \<open>\<^verbatim>\<open>*** successfully connected to server\<close>\<close>
  | cannot_connect string uint16_t error      \<comment> \<open>\<^verbatim>\<open>*** cannot connect to "host":port => err\<close>\<close>
  | result_line c_int atom c_int c_int        \<comment> \<open>\<^verbatim>\<open>x op y = result\<close>\<close>

text \<open>
  The calls the client makes into the runtime, logged in program order. A request is
  logged with its correlation id, its destination (the middleman's actor or a peer), its
  timeout argument and its payload; \<open>request_await\<close> is \<^verbatim>\<open>request(...).await(...)\<close> and
  \<open>request_then\<close> is \<^verbatim>\<open>request(...).then(...)\<close>.
\<close>

datatype target = middleman | peer actor_id

datatype effect =
    aout aout_line
  | request_await nat target timeout message
  | request_then nat target timeout message
  | monitor actor_id

text \<open>
  Modelled from the spec: the mailbox of the framework is not part of the sources at hand.
  By sections 4.1 to 4.3 the client's mailbox holds messages for the active behavior, the
  response to a connect request (an error, or the node, the handle and the interface names
  the middleman resolved, which are the arguments of the continuation in \<^verbatim>\<open>connecting\<close>), the
  response to an arithmetic request (an error or the result), and the down message of a
  monitored actor. A response carries the correlation id of its request.
\<close>

datatype mailbox_element =
    msg message
  | connect_response nat "error + node_id \<times> strong_actor_ptr \<times> string set"
  | calc_response nat "error + c_int"
  | down_msg actor_addr

text \<open>
  The active behavior of the client. \<^verbatim>\<open>running(self, calculator)\<close> returns handlers that
  captured the calculator's handle.
\<close>

datatype behavior = unconnected_bhvr | running_bhvr actor_id

text \<open>
  Modelled from the spec: the class \<^verbatim>\<open>stateful_actor\<close> and the runtime behind it (mailbox,
  request broker, await) are not part of the sources at hand. The client actor is its
  \<^verbatim>\<open>state\<close>, its active behavior, and the runtime's part. By sections 4.1 and 4.2 an agent
  owns a FIFO mailbox, a request allocates a correlation id and keeps its continuations
  until the request resolves, and an awaited request suspends everything else. \<open>awaited\<close>
  holds the awaited connect requests (correlation id and the host and port the continuation
  captured), \<open>pending\<close> the arithmetic requests in continuation mode (correlation id and
  the operation and operands the continuation captured), \<open>next_id\<close> the next correlation
  id, and \<open>effects\<close> the log of the client's calls.
\<close>

record client = state +
  bhvr :: behavior
  awaited :: "(nat \<times> string \<times> uint16_t) list"
  pending :: "(nat \<times> atom \<times> c_int \<times> c_int) list"
  next_id :: nat
  mailbox :: "mailbox_element list"
  effects :: "effect list"

section \<open>The client's state machine\<close>

text \<open>
  \<^verbatim>\<open>send_task\<close> in \<^verbatim>\<open>running\<close>: \<^verbatim>\<open>self->request(calculator, task_timeout, op, x, y).then(...)\<close>.
\<close>

definition send_task :: "actor_id \<Rightarrow> atom \<Rightarrow> c_int \<Rightarrow> c_int \<Rightarrow> 'a client_scheme \<Rightarrow> 'a client_scheme" where
  "send_task calculator opr x y self =
     self\<lparr>pending := pending self @ [(next_id self, opr, x, y)],
          effects := effects self @
            [request_then (next_id self) (peer calculator) task_timeout (arith_msg opr x y)],
          next_id := Suc (next_id self)\<rparr>"

text \<open>The success continuation of \<^verbatim>\<open>send_task\<close>: print the result.\<close>

definition send_task_result :: "atom \<Rightarrow> c_int \<Rightarrow> c_int \<Rightarrow> c_int \<Rightarrow> 'a client_scheme \<Rightarrow> 'a client_scheme" where
  "send_task_result opr x y result self =
     self\<lparr>effects := effects self @ [aout (result_line x opr y result)]\<rparr>"

text \<open>
  The failure continuation of \<^verbatim>\<open>send_task\<close>, \<^verbatim>\<open>[=](const error&) { self->send(self, op, x, y); }\<close>:
  the error is not looked at, the message goes to the tail of the client's own mailbox.
\<close>

definition send_task_error :: "atom \<Rightarrow> c_int \<Rightarrow> c_int \<Rightarrow> error \<Rightarrow> 'a client_scheme \<Rightarrow> 'a client_scheme" where
  "send_task_error opr x y err self =
     self\<lparr>mailbox := mailbox self @ [msg (arith_msg opr x y)]\<rparr>"

text \<open>
  The body of \<^verbatim>\<open>running\<close> before its \<^verbatim>\<open>return\<close>: the loop over \<^verbatim>\<open>self->state.tasks\<close>, then
  \<^verbatim>\<open>tasks.clear()\<close>.
\<close>

definition running :: "actor_id \<Rightarrow> 'a client_scheme \<Rightarrow> 'a client_scheme" where
  "running calculator self =
     (foldl (\<lambda>s x. send_task calculator (op x) (lhs x) (rhs x) s) self (tasks self))
       \<lparr>tasks := []\<rparr>"

text \<open>
  \<^verbatim>\<open>connecting\<close>: reset \<^verbatim>\<open>current_server\<close>, then
  \<^verbatim>\<open>self->request(mm, infinite, connect_atom_v, host, port).await(...)\<close>.
\<close>

definition connecting :: "string \<Rightarrow> uint16_t \<Rightarrow> 'a client_scheme \<Rightarrow> 'a client_scheme" where
  "connecting host port self =
     self\<lparr>current_server := None,
          awaited := (next_id self, host, port) # awaited self,
          effects := effects self @
            [request_await (next_id self) middleman infinite_timeout (connect_msg host port)],
          next_id := Suc (next_id self)\<rparr>"

text \<open>The first continuation of the awaited request in \<^verbatim>\<open>connecting\<close>.\<close>

definition connecting_result ::
  "string \<Rightarrow> uint16_t \<Rightarrow> node_id \<Rightarrow> strong_actor_ptr \<Rightarrow> string set \<Rightarrow> 'a client_scheme \<Rightarrow> 'a client_scheme" where
  "connecting_result host port nid serv ifs self =
     (case serv of
        None \<Rightarrow> self\<lparr>effects := effects self @ [aout (no_server_found host port)]\<rparr>
      | Some hdl \<Rightarrow>
          if ifs \<noteq> {} then self\<lparr>effects := effects self @ [aout (typed_actor_found host port)]\<rparr>
          else
            (running hdl
               (self\<lparr>current_server := serv,
                     effects := effects self @ [aout successfully_connected, monitor hdl]\<rparr>))
              \<lparr>bhvr := running_bhvr hdl\<rparr>)"

text \<open>The second continuation of the awaited request in \<^verbatim>\<open>connecting\<close>.\<close>

definition connecting_error :: "string \<Rightarrow> uint16_t \<Rightarrow> error \<Rightarrow> 'a client_scheme \<Rightarrow> 'a client_scheme" where
  "connecting_error host port err self =
     self\<lparr>effects := effects self @ [aout (cannot_connect host port err)],
          bhvr := unconnected_bhvr\<rparr>"

text \<open>The handlers of the behavior \<^verbatim>\<open>unconnected\<close>.\<close>

fun unconnected :: "message \<Rightarrow> 'a client_scheme \<Rightarrow> 'a client_scheme" where
  "unconnected (arith_msg add_atom x y) self =
     self\<lparr>tasks := tasks self @ [\<lparr>op = add_atom, lhs = x, rhs = y\<rparr>]\<rparr>"
| "unconnected (arith_msg sub_atom x y) self =
     self\<lparr>tasks := tasks self @ [\<lparr>op = sub_atom, lhs = x, rhs = y\<rparr>]\<rparr>"
| "unconnected (connect_msg host port) self = connecting host port self"

text \<open>The handlers of the behavior that \<^verbatim>\<open>running\<close> returns.\<close>

fun running_handlers :: "actor_id \<Rightarrow> message \<Rightarrow> 'a client_scheme \<Rightarrow> 'a client_scheme" where
  "running_handlers calculator (arith_msg add_atom x y) self = send_task calculator add_atom x y self"
| "running_handlers calculator (arith_msg sub_atom x y) self = send_task calculator sub_atom x y self"
| "running_handlers calculator (connect_msg host port) self = connecting host port self"

text \<open>The down handler that \<^verbatim>\<open>init\<close> installs.\<close>

definition down_handler :: "actor_addr \<Rightarrow> 'a client_scheme \<Rightarrow> 'a client_scheme" where
  "down_handler source self =
     (if source = current_server self
      then self\<lparr>effects := effects self @ [aout lost_connection],
                current_server := None,
                bhvr := unconnected_bhvr\<rparr>
      else self)"

text \<open>
  \<^verbatim>\<open>init\<close>: the freshly spawned client, with a default-constructed \<^verbatim>\<open>state\<close> and the
  behavior \<^verbatim>\<open>unconnected\<close>.
\<close>

definition init :: client where
  "init = \<lparr>current_server = None, tasks = [], bhvr = unconnected_bhvr, awaited = [],
           pending = [], next_id = 0, mailbox = [], effects = []\<rparr>"

section \<open>The runtime: one mailbox cycle\<close>

text \<open>
  Modelled from the spec: message dispatch is not part of the sources at hand. By sections
  4.1, 4.2 and 5, one element of the mailbox is handled at a time and to completion. While a
  request is awaited, every element but its response is skipped and stays in the mailbox in
  its place. Otherwise a response resolves the pending request of its correlation id, which
  is removed, so a request resolves once; a response that finds no request is dropped; a down
  message goes to the down handler and a message to the active behavior.
  \<open>None\<close> means skipped.
\<close>

definition consume :: "mailbox_element \<Rightarrow> client \<Rightarrow> client option" where
  "consume e self =
     (case awaited self of
        (rid, host, port) # rest \<Rightarrow>
          (case e of
             connect_response rid' r \<Rightarrow>
               if rid' = rid then
                 Some (case r of
                         Inr (nid, serv, ifs) \<Rightarrow> connecting_result host port nid serv ifs (self\<lparr>awaited := rest\<rparr>)
                       | Inl err \<Rightarrow> connecting_error host port err (self\<lparr>awaited := rest\<rparr>))
               else None
           | _ \<Rightarrow> None)
      | [] \<Rightarrow>
          (case e of
             msg m \<Rightarrow>
               Some (case bhvr self of
                       unconnected_bhvr \<Rightarrow> unconnected m self
                     | running_bhvr calculator \<Rightarrow> running_handlers calculator m self)
           | down_msg source \<Rightarrow> Some (down_handler source self)
           | calc_response rid r \<Rightarrow>
               (case map_of (pending self) rid of
                  None \<Rightarrow> Some self
                | Some (opr, x, y) \<Rightarrow>
                    Some (case r of
                            Inr result \<Rightarrow>
                              send_task_result opr x y result
                                (self\<lparr>pending := filter (\<lambda>p. fst p \<noteq> rid) (pending self)\<rparr>)
                          | Inl err \<Rightarrow>
                              send_task_error opr x y err
                                (self\<lparr>pending := filter (\<lambda>p. fst p \<noteq> rid) (pending self)\<rparr>)))
           | connect_response rid r \<Rightarrow> Some self))"

text \<open>
  Modelled from the spec: the scheduler of the framework is not part of the sources at
  hand. By sections 4.1 and 4.2 a mailbox cycle handles the first element of the mailbox
  that is not skipped and takes it out of the mailbox; the skipped ones keep their order.
  \<open>None\<close>: nothing to handle.
\<close>

fun resume_from :: "mailbox_element list \<Rightarrow> mailbox_element list \<Rightarrow> client \<Rightarrow> client option" where
  "resume_from skipped [] self = None"
| "resume_from skipped (e # es) self =
     (case consume e (self\<lparr>mailbox := skipped @ es\<rparr>) of
        Some self' \<Rightarrow> Some self'
      | None \<Rightarrow> resume_from (skipped @ [e]) es self)"

definition resume :: "client \<Rightarrow> client option" where
  "resume self = resume_from [] (mailbox self) self"

text \<open>
  Modelled from the spec: delivery is not part of the sources at hand. By section 4.1 an
  element delivered to the client joins the tail of its mailbox.
\<close>

definition enqueue :: "mailbox_element \<Rightarrow> client \<Rightarrow> client" where
  "enqueue e self = self\<lparr>mailbox := mailbox self @ [e]\<rparr>"

text \<open>
  The states the client can be in, starting from \<^verbatim>\<open>init\<close>: whatever is delivered, in
  whatever order, and whenever the mailbox cycles run.
\<close>

inductive reachable :: "client \<Rightarrow> bool" where
  reachable_init: "reachable init"
| reachable_enqueue: "reachable self \<Longrightarrow> reachable (enqueue e self)"
| reachable_resume: "reachable self \<Longrightarrow> resume self = Some self' \<Longrightarrow> reachable self'"

text \<open>
  The connection state of section 4.4, read off the client: \<open>Connecting\<close> while a connect
  request is awaited, otherwise the state the active behavior stands for.
\<close>

datatype connection_state = Unconnected | Connecting | Running

definition connection_state_of :: "client \<Rightarrow> connection_state" where
  "connection_state_of self =
     (if awaited self \<noteq> [] then Connecting
      else case bhvr self of unconnected_bhvr \<Rightarrow> Unconnected | running_bhvr calculator \<Rightarrow> Running)"

section \<open>The interactive client\<close>

subsection \<open>Number conversion\<close>

text \<open>
  \<^verbatim>\<open>strtol\<close> and \<^verbatim>\<open>strtoul\<close> are the C library's; they are modelled after the C standard
  (7.22.1.4) for base 10 in the C locale. The subject sequence is optional white
  space, an optional sign and a non-empty run of decimal digits. A \<^verbatim>\<open>std::string\<close> may hold
  a NUL character, where \<^verbatim>\<open>c_str()\<close> ends for the C library: NUL is neither white space nor
  a digit, so the scan stops there as well.
\<close>

definition isspace :: "char \<Rightarrow> bool" where
  "isspace c = (c = CHR '' '' \<or> (9::nat) \<le> of_char c \<and> of_char c \<le> (13::nat))"

definition isdigit :: "char \<Rightarrow> bool" where
  "isdigit c = ((48::nat) \<le> of_char c \<and> of_char c \<le> (57::nat))"

definition decimal :: "string \<Rightarrow> nat" where
  "decimal ds = foldl (\<lambda>a c. 10 * a + (of_char c - 48)) 0 ds"

text \<open>
  The subject sequence of a string: whether it has a minus sign, its digits, and the
  offset of the first character after it (what \<^verbatim>\<open>end\<close> points to). \<open>None\<close> when there are
  no digits: no conversion is performed.
\<close>

definition subject_sequence :: "string \<Rightarrow> (bool \<times> string \<times> nat) option" where
  "subject_sequence s =
     (let ws = takeWhile isspace s;
          r = dropWhile isspace s;
          signed = (case r of [] \<Rightarrow> False | c # cs \<Rightarrow> c = CHR ''-'' \<or> c = CHR ''+'');
          negative = (case r of [] \<Rightarrow> False | c # cs \<Rightarrow> c = CHR ''-'');
          ds = takeWhile isdigit (if signed then tl r else r)
      in if ds = [] then None
         else Some (negative, ds, length ws + (if signed then 1 else 0) + length ds))"

text \<open>
  \<^verbatim>\<open>strtoul(s, &end, 10)\<close>: the value and the offset of \<^verbatim>\<open>end\<close> in \<open>s\<close>. Without a conversion
  the value is 0 and \<^verbatim>\<open>end\<close> is \<open>s\<close> itself. A value out of range gives \<^verbatim>\<open>ULONG_MAX\<close>; a minus
  sign negates the value in the unsigned type.
\<close>

definition strtoul :: "string \<Rightarrow> 64 word \<times> nat" where
  "strtoul s =
     (case subject_sequence s of
        None \<Rightarrow> (0, 0)
      | Some (negative, ds, e) \<Rightarrow>
          (if 2 ^ 64 \<le> decimal ds then - 1
           else if negative then - word_of_nat (decimal ds)
           else word_of_nat (decimal ds), e))"

text \<open>
  \<^verbatim>\<open>strtol(s, &end, 10)\<close>: the value, a \<^verbatim>\<open>long\<close> between \<^verbatim>\<open>LONG_MIN\<close> and \<^verbatim>\<open>LONG_MAX\<close> (a value
  out of range is clamped), and the offset of \<^verbatim>\<open>end\<close>.
\<close>

definition strtol :: "string \<Rightarrow> int \<times> nat" where
  "strtol s =
     (case subject_sequence s of
        None \<Rightarrow> (0, 0)
      | Some (negative, ds, e) \<Rightarrow>
          (if negative then max (- (2 ^ 63)) (- int (decimal ds))
           else min (2 ^ 63 - 1) (int (decimal ds)), e))"

text \<open>
  \<^verbatim>\<open>toint\<close>: \<^verbatim>\<open>static_cast<int>(strtol(...))\<close> keeps the low 32 bits; the result is returned
  when \<^verbatim>\<open>end\<close> is the end of the string.
\<close>

definition toint :: "string \<Rightarrow> c_int option" where
  "toint str =
     (let (result, e) = strtol str
      in if e = length str then Some (word_of_int result) else None)"

subsection \<open>The read-eval-print loop\<close>

text \<open>\<^verbatim>\<open>class config\<close>: the options with their defaults.\<close>

record config =
  port :: uint16_t
  host :: string
  server_mode :: bool

definition default_config :: config where
  "default_config = \<lparr>port = 0, host = ''localhost'', server_mode = False\<rparr>"

text \<open>
  What the loop does to the outside: the messages it sends to the client actor with
  \<^verbatim>\<open>anon_send\<close> and \<^verbatim>\<open>anon_send_exit\<close>, and the lines it writes to \<^verbatim>\<open>cout\<close>.
\<close>

datatype exit_reason = user_shutdown

datatype sent = anon_send message | anon_send_exit exit_reason

datatype cout_line =
    usage_text                   \<comment> \<open>the five lines of \<^verbatim>\<open>usage()\<close>\<close>
  | no_server_via_config         \<comment> \<open>\<^verbatim>\<open>*** no server received via config, please use ...\<close>\<close>
  | not_unsigned string          \<comment> \<open>\<^verbatim>\<open>"arg2" is not an unsigned integer\<close>\<close>
  | greater_than_max string      \<comment> \<open>\<^verbatim>\<open>"arg2" > 65535\<close>\<close>

record repl =
  is_done :: bool
  to_client :: "sent list"
  cout :: "cout_line list"

definition usage :: "repl \<Rightarrow> repl" where
  "usage r = r\<lparr>cout := cout r @ [usage_text]\<rparr>"

text \<open>
  The message handler \<^verbatim>\<open>eval\<close>, applied to the message built from the words of a line: the
  first handler takes one string, the second three. \<open>None\<close> when no handler matches.
\<close>

fun eval :: "string list \<Rightarrow> repl \<Rightarrow> repl option" where
  "eval [cmd] r =
     Some (if cmd \<noteq> ''quit'' then r
           else r\<lparr>to_client := to_client r @ [anon_send_exit user_shutdown], is_done := True\<rparr>)"
| "eval [arg0, arg1, arg2] r =
     Some (if arg0 = ''connect'' then
             (let (lport, e) = strtoul arg2
              in if e \<noteq> length arg2 then r\<lparr>cout := cout r @ [not_unsigned arg2]\<rparr>
                 else if lport > 65535 then r\<lparr>cout := cout r @ [greater_than_max arg2]\<rparr>
                 else r\<lparr>to_client := to_client r @ [anon_send (connect_msg arg1 (ucast lport))]\<rparr>)
           else
             (case (toint arg0, toint arg2) of
                (Some x, Some y) \<Rightarrow>
                  if arg1 = ''+'' then r\<lparr>to_client := to_client r @ [anon_send (arith_msg add_atom x y)]\<rparr>
                  else if arg1 = ''-'' then r\<lparr>to_client := to_client r @ [anon_send (arith_msg sub_atom x y)]\<rparr>
                  else r
              | _ \<Rightarrow> r))"
| "eval ws r = None"

text \<open>The body of the loop for the words of one line: \<^verbatim>\<open>if (!eval(msg)) usage();\<close>.\<close>

definition eval_line :: "string list \<Rightarrow> repl \<Rightarrow> repl" where
  "eval_line ws r = (case eval ws r of None \<Rightarrow> usage r | Some r' \<Rightarrow> r')"

text \<open>
  \<^verbatim>\<open>while (!done && std::getline(std::cin, line))\<close>, over the lines of the input, each given by
  its words (the line trimmed and split at blanks).
\<close>

fun repl_loop :: "string list list \<Rightarrow> repl \<Rightarrow> repl" where
  "repl_loop [] r = r"
| "repl_loop (ws # rest) r = (if is_done r then r else repl_loop rest (eval_line ws r))"

text \<open>
  \<^verbatim>\<open>client_repl\<close>: print the usage, spawn the client, send it the configured endpoint if
  there is one, then loop.
\<close>

definition client_repl :: "config \<Rightarrow> string list list \<Rightarrow> repl" where
  "client_repl cfg input =
     repl_loop input
       (if host cfg \<noteq> [] \<and> port cfg > 0
        then \<lparr>is_done = False, to_client = [anon_send (connect_msg (host cfg) (port cfg))],
              cout = [usage_text]\<rparr>
        else \<lparr>is_done = False, to_client = [], cout = [usage_text, no_server_via_config]\<rparr>)"



section \<open>The server\<close>

text \<open>
  What \<^verbatim>\<open>run_server\<close> does, in program order. \<open>publish\<close> is the call \<^verbatim>\<open>io::publish(calc, port)\<close>,
  \<open>getline\<close> blocks until a line (or the end) of the standard input.
\<close>

datatype server_effect =
    spawn_calculator
  | cout_try_publish uint16_t         \<comment> \<open>\<^verbatim>\<open>*** try publish at port p\<close>\<close>
  | publish uint16_t
  | cerr_publish_failed error         \<comment> \<open>\<^verbatim>\<open>*** publish failed: err\<close>\<close>
  | cout_published uint16_t           \<comment> \<open>\<^verbatim>\<open>*** server successfully published at port p\<close>, \<^verbatim>\<open>*** press [enter] to quit\<close>\<close>
  | getline
  | cout_cya                          \<comment> \<open>\<^verbatim>\<open>... cya\<close>\<close>
  | exit_calculator exit_reason       \<comment> \<open>\<^verbatim>\<open>anon_send_exit(calc, exit_reason::user_shutdown)\<close>\<close>

text \<open>
  \<^verbatim>\<open>run_server\<close>; \<open>expected_port\<close> is what \<^verbatim>\<open>io::publish\<close> returns, an error or the port bound.
\<close>

definition run_server :: "config \<Rightarrow> error + uint16_t \<Rightarrow> server_effect list" where
  "run_server cfg expected_port =
     [spawn_calculator, cout_try_publish (port cfg), publish (port cfg)] @
     (case expected_port of
        Inl err \<Rightarrow> [cerr_publish_failed err]
      | Inr p \<Rightarrow> [cout_published p, getline, cout_cya, exit_calculator user_shutdown])"

section \<open>Invariants of the client\<close>

text \<open>
  At most one connect request is awaited, and tasks are queued only under the behavior
  \<^verbatim>\<open>unconnected\<close>.
\<close>

definition queue_invariant :: "client \<Rightarrow> bool" where
  "queue_invariant self =
     (length (awaited self) \<le> 1 \<and> (tasks self \<noteq> [] \<longrightarrow> bhvr self = unconnected_bhvr))"

text \<open>The correlation ids of the pending requests are distinct and below the next id.\<close>

definition fresh_ids :: "client \<Rightarrow> bool" where
  "fresh_ids self =
     (distinct (map fst (pending self)) \<and> (\<forall>p \<in> set (pending self). fst p < next_id self))"

text \<open>Every pending request stands in the log, with the operation and operands it keeps.\<close>

definition request_logged :: "client \<Rightarrow> nat \<times> atom \<times> c_int \<times> c_int \<Rightarrow> bool" where
  "request_logged self p =
     (case p of (rid, opr, x, y) \<Rightarrow>
        \<exists>calculator. request_then rid (peer calculator) task_timeout (arith_msg opr x y) \<in> set (effects self))"

definition pending_logged :: "client \<Rightarrow> bool" where
  "pending_logged self = (\<forall>p \<in> set (pending self). request_logged self p)"

text \<open>The timeout argument a logged request was sent with.\<close>

definition timeout_of :: "effect \<Rightarrow> timeout option" where
  "timeout_of e =
     (case e of
        request_await rid dest t m \<Rightarrow> Some t
      | request_then rid dest t m \<Rightarrow> Some t
      | _ \<Rightarrow> None)"

text \<open>
  The requests of the log: an awaited request goes to the middleman with a connect message
  and the timeout \<^verbatim>\<open>infinite\<close>, a request in continuation mode to a peer with an arithmetic
  message and \<^verbatim>\<open>task_timeout\<close>.
\<close>

definition request_timeouts :: "client \<Rightarrow> bool" where
  "request_timeouts self =
     (\<forall>e \<in> set (effects self).
        case e of
          request_await rid dest t m \<Rightarrow> dest = middleman \<and> t = infinite_timeout \<and> (\<exists>h p. m = connect_msg h p)
        | request_then rid dest t m \<Rightarrow> (\<exists>c. dest = peer c) \<and> t = task_timeout \<and> (\<exists>opr x y. m = arith_msg opr x y)
        | _ \<Rightarrow> True)"

definition invariant :: "client \<Rightarrow> bool" where
  "invariant self = (queue_invariant self \<and> fresh_ids self \<and> pending_logged self \<and> request_timeouts self)"

section \<open>Example runs\<close>

text \<open>
  States of one run of the client: two operations are queued while unconnected; a connect
  message starts the connect request; the middleman resolves it to the actor 7 and the
  client runs; a second connect message arrives while running; the middleman resolves that
  one to the actor 8.
\<close>

definition queued_client :: client where
  "queued_client =
     \<lparr>current_server = None,
      tasks = [\<lparr>op = add_atom, lhs = 3, rhs = 4\<rparr>, \<lparr>op = sub_atom, lhs = 9, rhs = 5\<rparr>],
      bhvr = unconnected_bhvr, awaited = [], pending = [], next_id = 0, mailbox = [], effects = []\<rparr>"

definition connecting_client :: client where
  "connecting_client =
     queued_client\<lparr>awaited := [(0, ''localhost'', 4242)], next_id := 1,
        effects := [request_await 0 middleman infinite_timeout (connect_msg ''localhost'' 4242)]\<rparr>"

definition running_client :: client where
  "running_client =
     \<lparr>current_server = Some 7, tasks = [], bhvr = running_bhvr 7, awaited = [],
      pending = [(1, add_atom, 3, 4), (2, sub_atom, 9, 5)], next_id = 3, mailbox = [],
      effects =
        [request_await 0 middleman infinite_timeout (connect_msg ''localhost'' 4242),
         aout successfully_connected, monitor 7,
         request_then 1 (peer 7) task_timeout (arith_msg add_atom 3 4),
         request_then 2 (peer 7) task_timeout (arith_msg sub_atom 9 5)]\<rparr>"

definition reconnecting_client :: client where
  "reconnecting_client =
     running_client\<lparr>current_server := None, awaited := [(3, ''otherhost'', 4243)], next_id := 4,
        effects := effects running_client @
          [request_await 3 middleman infinite_timeout (connect_msg ''otherhost'' 4243)]\<rparr>"

definition reconnected_client :: client where
  "reconnected_client =
     reconnecting_client\<lparr>current_server := Some 8, bhvr := running_bhvr 8, awaited := [],
        effects := effects reconnecting_client @ [aout successfully_connected, monitor 8]\<rparr>"

text \<open>
  The running client of the example run after the down message of its calculator: it is
  unconnected and its two requests are still pending.
\<close>

definition disconnected_client :: client where
  "disconnected_client =
     running_client\<lparr>effects := effects running_client @ [aout lost_connection],
        current_server := None, bhvr := unconnected_bhvr\<rparr>"

text \<open>
  A second run from the disconnected client: the failure of its first request and a
  connect message are in the mailbox, in this order; the failure is handled, then the
  connect message, then the connect request resolves to the actor 8.
\<close>

definition racing_client :: client where
  "racing_client =
     disconnected_client
       \<lparr>mailbox := [calc_response 1 (Inl request_timeout), msg (connect_msg ''localhost'' 4242)]\<rparr>"

definition racing_resent :: client where
  "racing_resent =
     disconnected_client
       \<lparr>pending := [(2, sub_atom, 9, 5)],
        mailbox := [msg (connect_msg ''localhost'' 4242), msg (arith_msg add_atom 3 4)]\<rparr>"

definition racing_connecting :: client where
  "racing_connecting =
     disconnected_client
       \<lparr>pending := [(2, sub_atom, 9, 5)],
        mailbox := [msg (arith_msg add_atom 3 4)],
        awaited := [(3, ''localhost'', 4242)],
        next_id := 4,
        effects := effects disconnected_client @
          [request_await 3 middleman infinite_timeout (connect_msg ''localhost'' 4242)]\<rparr>"

definition racing_running :: client where
  "racing_running =
     disconnected_client
       \<lparr>current_server := Some 8,
        bhvr := running_bhvr 8,
        pending := [(2, sub_atom, 9, 5)],
        mailbox := [msg (arith_msg add_atom 3 4)],
        awaited := [],
        next_id := 4,
        effects := effects disconnected_client @
          [request_await 3 middleman infinite_timeout (connect_msg ''localhost'' 4242),
           aout successfully_connected, monitor 8]\<rparr>"

section \<open>A peer that fails every request\<close>

text \<open>
  One round with a peer that fails every request: a mailbox cycle of the client, then the
  failure of the request that cycle sent (the one with the client's next correlation id)
  is delivered and a second mailbox cycle handles it. \<open>failing_rounds\<close> repeats the round.
\<close>

definition failing_round :: "error \<Rightarrow> client \<Rightarrow> client option" where
  "failing_round err self =
     (case resume self of
        None \<Rightarrow> None
      | Some s \<Rightarrow> resume (enqueue (calc_response (next_id self) (Inl err)) s))"

fun failing_rounds :: "nat \<Rightarrow> error \<Rightarrow> client \<Rightarrow> client option" where
  "failing_rounds 0 err self = Some self"
| "failing_rounds (Suc k) err self =
     (case failing_round err self of None \<Rightarrow> None | Some s \<Rightarrow> failing_rounds k err s)"

section \<open>Deadlines\<close>

text \<open>A logged request carries a deadline when its timeout argument is a duration.\<close>

definition carries_deadline :: "effect \<Rightarrow> bool" where
  "carries_deadline e = (timeout_of e \<noteq> Some infinite_timeout)"

section \<open>The loop of \<open>running\<close>\<close>

lemma foldl_send_task:
  "foldl (\<lambda>s x. send_task h (op x) (lhs x) (rhs x) s) self ts =
     self\<lparr>pending := pending self @
              map2 (\<lambda>i t. (i, op t, lhs t, rhs t)) [next_id self ..< next_id self + length ts] ts,
          effects := effects self @
              map2 (\<lambda>i t. request_then i (peer h) task_timeout (arith_msg (op t) (lhs t) (rhs t)))
                [next_id self ..< next_id self + length ts] ts,
          next_id := next_id self + length ts\<rparr>"
proof (induction ts arbitrary: self)
  case Nil
  show ?case by simp
next
  case (Cons t ts)
  show ?case
    by (simp add: Cons.IH del: upt_Suc) (simp add: send_task_def upt_conv_Cons del: upt_Suc)
qed

lemma running_eq:
  "running h self =
     self\<lparr>pending := pending self @
              map2 (\<lambda>i t. (i, op t, lhs t, rhs t)) [next_id self ..< next_id self + length (tasks self)] (tasks self),
          effects := effects self @
              map2 (\<lambda>i t. request_then i (peer h) task_timeout (arith_msg (op t) (lhs t) (rhs t)))
                [next_id self ..< next_id self + length (tasks self)] (tasks self),
          next_id := next_id self + length (tasks self),
          tasks := []\<rparr>"
  by (simp add: running_def foldl_send_task)

text \<open>\<open>send_task\<close> and the loop of \<open>running\<close> keep the invariants.\<close>

lemma send_task_fresh: "fresh_ids self \<Longrightarrow> fresh_ids (send_task h opr x y self)"
  by (auto simp: fresh_ids_def send_task_def less_Suc_eq)

lemma send_task_logged: "pending_logged self \<Longrightarrow> pending_logged (send_task h opr x y self)"
  by (auto simp: pending_logged_def request_logged_def send_task_def)

lemma send_task_timeouts: "request_timeouts self \<Longrightarrow> request_timeouts (send_task h opr x y self)"
  by (auto simp: request_timeouts_def send_task_def)

lemma send_task_fields [simp]:
  "tasks (send_task h opr x y self) = tasks self"
  "bhvr (send_task h opr x y self) = bhvr self"
  "awaited (send_task h opr x y self) = awaited self"
  "mailbox (send_task h opr x y self) = mailbox self"
  "current_server (send_task h opr x y self) = current_server self"
  by (simp_all add: send_task_def)

lemma running_fresh: "fresh_ids self \<Longrightarrow> fresh_ids (running h self)"
proof -
  have "fresh_ids s \<Longrightarrow> fresh_ids (foldl (\<lambda>s x. send_task h (op x) (lhs x) (rhs x) s) s ts)" for s :: client and ts
    by (induction ts arbitrary: s) (simp_all add: send_task_fresh)
  then show "fresh_ids self \<Longrightarrow> fresh_ids (running h self)"
    by (simp add: running_def fresh_ids_def)
qed

lemma running_logged: "pending_logged self \<Longrightarrow> pending_logged (running h self)"
proof -
  have "pending_logged s \<Longrightarrow> pending_logged (foldl (\<lambda>s x. send_task h (op x) (lhs x) (rhs x) s) s ts)" for s :: client and ts
    by (induction ts arbitrary: s) (simp_all add: send_task_logged)
  then show "pending_logged self \<Longrightarrow> pending_logged (running h self)"
    by (simp add: running_def pending_logged_def request_logged_def)
qed

lemma running_timeouts: "request_timeouts self \<Longrightarrow> request_timeouts (running h self)"
proof -
  have "request_timeouts s \<Longrightarrow> request_timeouts (foldl (\<lambda>s x. send_task h (op x) (lhs x) (rhs x) s) s ts)" for s :: client and ts
    by (induction ts arbitrary: s) (simp_all add: send_task_timeouts)
  then show "request_timeouts self \<Longrightarrow> request_timeouts (running h self)"
    by (simp add: running_def request_timeouts_def)
qed

lemma running_fields [simp]:
  "tasks (running h self) = []"
  "bhvr (running h self) = bhvr self"
  "awaited (running h self) = awaited self"
  "mailbox (running h self) = mailbox self"
  "current_server (running h self) = current_server self"
  by (simp_all add: running_eq)


lemma consume_cases:
  assumes "consume e self = Some self'"
  obtains
    (resolved) rid hst prt rest nid serv ifs where
      "awaited self = (rid, hst, prt) # rest" "e = connect_response rid (Inr (nid, serv, ifs))"
      "self' = connecting_result hst prt nid serv ifs (self\<lparr>awaited := rest\<rparr>)"
  | (failed) rid hst prt rest err where
      "awaited self = (rid, hst, prt) # rest" "e = connect_response rid (Inl err)"
      "self' = connecting_error hst prt err (self\<lparr>awaited := rest\<rparr>)"
  | (unconnected) m where
      "awaited self = []" "e = msg m" "bhvr self = unconnected_bhvr" "self' = unconnected m self"
  | (running) m calculator where
      "awaited self = []" "e = msg m" "bhvr self = running_bhvr calculator"
      "self' = running_handlers calculator m self"
  | (down) source where
      "awaited self = []" "e = down_msg source" "self' = down_handler source self"
  | (dropped) "awaited self = []" "self' = self"
  | (result) rid opr x y r where
      "awaited self = []" "e = calc_response rid (Inr r)" "map_of (pending self) rid = Some (opr, x, y)"
      "self' = send_task_result opr x y r (self\<lparr>pending := filter (\<lambda>p. fst p \<noteq> rid) (pending self)\<rparr>)"
  | (error) rid opr x y err where
      "awaited self = []" "e = calc_response rid (Inl err)" "map_of (pending self) rid = Some (opr, x, y)"
      "self' = send_task_error opr x y err (self\<lparr>pending := filter (\<lambda>p. fst p \<noteq> rid) (pending self)\<rparr>)"
  using assms
  by (auto simp: consume_def
      split: list.splits mailbox_element.splits if_splits sum.splits option.splits behavior.splits)

subsection \<open>A mailbox cycle keeps the queue invariant\<close>

lemma queue_invariant_consume:
  assumes "queue_invariant self" and "consume e self = Some self'"
  shows "queue_invariant self'"
  using assms(2)
proof (cases rule: consume_cases)
  case (resolved rid hst prt rest nid serv ifs)
  with assms(1) show ?thesis
    by (auto simp: queue_invariant_def connecting_result_def split: option.splits)
next
  case (failed rid hst prt rest err)
  with assms(1) show ?thesis by (auto simp: queue_invariant_def connecting_error_def)
next
  case (unconnected m)
  with assms(1) show ?thesis
    by (cases "(m, self)" rule: unconnected.cases) (auto simp: queue_invariant_def connecting_def)
next
  case (running m calculator)
  with assms(1) show ?thesis
    by (cases "(calculator, m, self)" rule: running_handlers.cases)
       (auto simp: queue_invariant_def connecting_def)
next
  case (down source)
  with assms(1) show ?thesis by (auto simp: queue_invariant_def down_handler_def)
next
  case dropped
  with assms(1) show ?thesis by simp
next
  case (result rid opr x y r)
  with assms(1) show ?thesis by (auto simp: queue_invariant_def send_task_result_def)
next
  case (error rid opr x y err)
  with assms(1) show ?thesis by (auto simp: queue_invariant_def send_task_error_def)
qed

subsection \<open>A mailbox cycle keeps the correlation ids fresh\<close>

lemma fresh_ids_independent [simp]:
  "fresh_ids (self\<lparr>bhvr := b\<rparr>) = fresh_ids self"
  "fresh_ids (self\<lparr>effects := es\<rparr>) = fresh_ids self"
  "fresh_ids (self\<lparr>mailbox := mb\<rparr>) = fresh_ids self"
  "fresh_ids (self\<lparr>awaited := aw\<rparr>) = fresh_ids self"
  "fresh_ids (self\<lparr>tasks := ts\<rparr>) = fresh_ids self"
  "fresh_ids (self\<lparr>current_server := cs\<rparr>) = fresh_ids self"
  by (simp_all add: fresh_ids_def)

lemma fresh_ids_remove: "fresh_ids self \<Longrightarrow> fresh_ids (self\<lparr>pending := filter Q (pending self)\<rparr>)"
  by (auto simp: fresh_ids_def distinct_map_filter)

lemma fresh_ids_connecting: "fresh_ids self \<Longrightarrow> fresh_ids (connecting hst prt self)"
  by (auto simp: fresh_ids_def connecting_def less_Suc_eq)

lemma fresh_ids_consume:
  assumes "fresh_ids self" and "consume e self = Some self'"
  shows "fresh_ids self'"
  using assms(2)
proof (cases rule: consume_cases)
  case (resolved rid hst prt rest nid serv ifs)
  with assms(1) show ?thesis
    by (auto simp: connecting_result_def running_fresh split: option.splits)
next
  case (failed rid hst prt rest err)
  with assms(1) show ?thesis by (simp add: connecting_error_def)
next
  case (unconnected m)
  with assms(1) show ?thesis
    by (cases "(m, self)" rule: unconnected.cases) (simp_all add: fresh_ids_connecting)
next
  case (running m calculator)
  with assms(1) show ?thesis
    by (cases "(calculator, m, self)" rule: running_handlers.cases)
       (simp_all add: fresh_ids_connecting send_task_fresh)
next
  case (down source)
  with assms(1) show ?thesis by (simp add: down_handler_def)
next
  case dropped
  with assms(1) show ?thesis by simp
next
  case (result rid opr x y r)
  with assms(1) show ?thesis by (simp add: send_task_result_def fresh_ids_remove)
next
  case (error rid opr x y err)
  with assms(1) show ?thesis by (simp add: send_task_error_def fresh_ids_remove)
qed


subsection \<open>Every pending request was sent\<close>

lemma pending_logged_independent [simp]:
  "pending_logged (self\<lparr>bhvr := b\<rparr>) = pending_logged self"
  "pending_logged (self\<lparr>mailbox := mb\<rparr>) = pending_logged self"
  "pending_logged (self\<lparr>awaited := aw\<rparr>) = pending_logged self"
  "pending_logged (self\<lparr>tasks := ts\<rparr>) = pending_logged self"
  "pending_logged (self\<lparr>current_server := cs\<rparr>) = pending_logged self"
  "pending_logged (self\<lparr>next_id := n\<rparr>) = pending_logged self"
  by (simp_all add: pending_logged_def request_logged_def)

lemma pending_logged_connecting: "pending_logged self \<Longrightarrow> pending_logged (connecting hst prt self)"
  by (auto simp: pending_logged_def request_logged_def connecting_def)

lemma pending_logged_consume:
  assumes "pending_logged self" and "consume e self = Some self'"
  shows "pending_logged self'"
  using assms(2)
proof (cases rule: consume_cases)
  case (resolved rid hst prt rest nid serv ifs)
  show ?thesis
  proof (cases "serv \<noteq> None \<and> ifs = {}")
    case True
    then obtain hdl where serv: "serv = Some hdl" and ifs: "ifs = {}" by auto
    have "pending_logged (self\<lparr>awaited := rest, current_server := serv,
            effects := effects self @ [aout successfully_connected, monitor hdl]\<rparr>)"
      using assms(1) by (auto simp: pending_logged_def request_logged_def)
    then have "pending_logged (running hdl (self\<lparr>awaited := rest, current_server := serv,
            effects := effects self @ [aout successfully_connected, monitor hdl]\<rparr>))"
      by (rule running_logged)
    then show ?thesis using resolved serv ifs by (simp add: connecting_result_def)
  next
    case False
    then show ?thesis using resolved assms(1)
      by (auto simp: connecting_result_def pending_logged_def request_logged_def split: option.splits)
  qed
next
  case (failed rid hst prt rest err)
  with assms(1) show ?thesis
    by (auto simp: connecting_error_def pending_logged_def request_logged_def)
next
  case (unconnected m)
  with assms(1) show ?thesis
    by (cases "(m, self)" rule: unconnected.cases) (simp_all add: pending_logged_connecting)
next
  case (running m calculator)
  with assms(1) show ?thesis
    by (cases "(calculator, m, self)" rule: running_handlers.cases)
       (simp_all add: pending_logged_connecting send_task_logged)
next
  case (down source)
  with assms(1) show ?thesis
    by (auto simp: down_handler_def pending_logged_def request_logged_def)
next
  case dropped
  with assms(1) show ?thesis by simp
next
  case (result rid opr x y r)
  with assms(1) show ?thesis
    by (auto simp: send_task_result_def pending_logged_def request_logged_def)
next
  case (error rid opr x y err)
  with assms(1) show ?thesis
    by (auto simp: send_task_error_def pending_logged_def request_logged_def)
qed

subsection \<open>The timeouts of the requests sent\<close>

lemma request_timeouts_independent [simp]:
  "request_timeouts (self\<lparr>bhvr := b\<rparr>) = request_timeouts self"
  "request_timeouts (self\<lparr>mailbox := mb\<rparr>) = request_timeouts self"
  "request_timeouts (self\<lparr>awaited := aw\<rparr>) = request_timeouts self"
  "request_timeouts (self\<lparr>tasks := ts\<rparr>) = request_timeouts self"
  "request_timeouts (self\<lparr>current_server := cs\<rparr>) = request_timeouts self"
  "request_timeouts (self\<lparr>next_id := n\<rparr>) = request_timeouts self"
  "request_timeouts (self\<lparr>pending := ps\<rparr>) = request_timeouts self"
  by (simp_all add: request_timeouts_def)

lemma request_timeouts_connecting: "request_timeouts self \<Longrightarrow> request_timeouts (connecting hst prt self)"
  by (auto simp: request_timeouts_def connecting_def)

lemma request_timeouts_consume:
  assumes "request_timeouts self" and "consume e self = Some self'"
  shows "request_timeouts self'"
  using assms(2)
proof (cases rule: consume_cases)
  case (resolved rid hst prt rest nid serv ifs)
  show ?thesis
  proof (cases "serv \<noteq> None \<and> ifs = {}")
    case True
    then obtain hdl where serv: "serv = Some hdl" and ifs: "ifs = {}" by auto
    have "request_timeouts (self\<lparr>awaited := rest, current_server := serv,
            effects := effects self @ [aout successfully_connected, monitor hdl]\<rparr>)"
      using assms(1) by (auto simp: request_timeouts_def)
    then have "request_timeouts (running hdl (self\<lparr>awaited := rest, current_server := serv,
            effects := effects self @ [aout successfully_connected, monitor hdl]\<rparr>))"
      by (rule running_timeouts)
    then show ?thesis using resolved serv ifs by (simp add: connecting_result_def)
  next
    case False
    then show ?thesis using resolved assms(1)
      by (auto simp: connecting_result_def request_timeouts_def split: option.splits)
  qed
next
  case (failed rid hst prt rest err)
  with assms(1) show ?thesis by (auto simp: connecting_error_def request_timeouts_def)
next
  case (unconnected m)
  with assms(1) show ?thesis
    by (cases "(m, self)" rule: unconnected.cases) (simp_all add: request_timeouts_connecting)
next
  case (running m calculator)
  with assms(1) show ?thesis
    by (cases "(calculator, m, self)" rule: running_handlers.cases)
       (simp_all add: request_timeouts_connecting send_task_timeouts)
next
  case (down source)
  with assms(1) show ?thesis by (auto simp: down_handler_def request_timeouts_def)
next
  case dropped
  with assms(1) show ?thesis by simp
next
  case (result rid opr x y r)
  with assms(1) show ?thesis by (auto simp: send_task_result_def request_timeouts_def)
next
  case (error rid opr x y err)
  with assms(1) show ?thesis by (simp add: send_task_error_def)
qed

subsection \<open>The invariants hold in every reachable state\<close>

lemma invariant_consume: "invariant self \<Longrightarrow> consume e self = Some self' \<Longrightarrow> invariant self'"
  unfolding invariant_def
  using queue_invariant_consume fresh_ids_consume pending_logged_consume request_timeouts_consume
  by blast

lemma invariant_mailbox: "invariant (self\<lparr>mailbox := mb\<rparr>) = invariant self"
  by (simp add: invariant_def queue_invariant_def)

lemma invariant_resume_from:
  "invariant self \<Longrightarrow> resume_from skipped es self = Some self' \<Longrightarrow> invariant self'"
proof (induction es arbitrary: skipped)
  case Nil
  then show ?case by simp
next
  case (Cons e es)
  show ?case
  proof (cases "consume e (self\<lparr>mailbox := skipped @ es\<rparr>)")
    case None
    with Cons show ?thesis by simp
  next
    case (Some c)
    have "invariant (self\<lparr>mailbox := skipped @ es\<rparr>)"
      using Cons.prems(1) by (simp add: invariant_mailbox)
    then have "invariant c" using Some by (rule invariant_consume)
    with Some Cons.prems(2) show ?thesis by simp
  qed
qed

lemma reachable_invariant: "reachable self \<Longrightarrow> invariant self"
proof (induction rule: reachable.induct)
  case reachable_init
  show ?case
    by (simp add: invariant_def queue_invariant_def fresh_ids_def pending_logged_def
          request_timeouts_def init_def)
next
  case (reachable_enqueue self e)
  then show ?case by (simp add: enqueue_def invariant_mailbox)
next
  case (reachable_resume self self')
  then show ?case by (auto simp: resume_def intro: invariant_resume_from)
qed

section \<open>The example run is a run of the client\<close>

lemma step_reachable:
  "reachable self \<Longrightarrow> resume (enqueue e self) = Some self' \<Longrightarrow> reachable self'"
  by (blast intro: reachable.intros)

lemma reachable_queued_client: "reachable queued_client"
proof -
  have "reachable (init\<lparr>tasks := [\<lparr>op = add_atom, lhs = 3, rhs = 4\<rparr>]\<rparr>)"
    by (rule step_reachable[OF reachable_init, of "msg (arith_msg add_atom 3 4)"])
       (simp add: resume_def enqueue_def consume_def init_def)
  then show ?thesis
    by (rule step_reachable[of _ "msg (arith_msg sub_atom 9 5)"])
       (simp add: resume_def enqueue_def consume_def init_def queued_client_def)
qed

lemma reachable_connecting_client: "reachable connecting_client"
  by (rule step_reachable[OF reachable_queued_client, of "msg (connect_msg ''localhost'' 4242)"])
     (simp add: resume_def enqueue_def consume_def queued_client_def connecting_client_def
        connecting_def)

lemma reachable_running_client: "reachable running_client"
  by (rule step_reachable[OF reachable_connecting_client, of "connect_response 0 (Inr (1, Some 7, {}))"])
     (simp add: resume_def enqueue_def consume_def queued_client_def connecting_client_def
        running_client_def connecting_result_def running_def send_task_def)

lemma reachable_reconnecting_client: "reachable reconnecting_client"
  by (rule step_reachable[OF reachable_running_client, of "msg (connect_msg ''otherhost'' 4243)"])
     (simp add: resume_def enqueue_def consume_def reconnecting_client_def
        running_client_def connecting_def)

lemma reachable_reconnected_client: "reachable reconnected_client"
  by (rule step_reachable[OF reachable_reconnecting_client, of "connect_response 3 (Inr (2, Some 8, {}))"])
     (simp add: resume_def enqueue_def consume_def reconnecting_client_def reconnected_client_def
        running_client_def connecting_result_def running_def)

section \<open>The client's connection state machine\<close>

text \<open>
  Claim C1. A client that awaits its connect request is in the state Connecting. When the
  request resolves to a non-null handle with an empty set of interface names, the client
  stores the handle as its current server, monitors it, sends one request in
  continuation mode to it for every queued task, in the order of the queue and with the
  task's operation and operands, leaves the queue empty, and is in the state Running with
  the behavior \<^verbatim>\<open>running\<close> of that handle.
\<close>

theorem connect_success_replays_queue_in_order:
  assumes "reachable self" and "awaited self = (rid, hst, prt) # rest"
  shows "connection_state_of self = Connecting \<and>
         (\<exists>self'. consume (connect_response rid (Inr (nid, Some hdl, {}))) self = Some self' \<and>
            current_server self' = Some hdl \<and>
            effects self' = effects self @ [aout successfully_connected, monitor hdl] @
              map2 (\<lambda>i t. request_then i (peer hdl) task_timeout (arith_msg (op t) (lhs t) (rhs t)))
                [next_id self ..< next_id self + length (tasks self)] (tasks self) \<and>
            pending self' = pending self @
              map2 (\<lambda>i t. (i, op t, lhs t, rhs t))
                [next_id self ..< next_id self + length (tasks self)] (tasks self) \<and>
            tasks self' = [] \<and>
            bhvr self' = running_bhvr hdl \<and>
            connection_state_of self' = Running)"
proof -
  have "length (awaited self) \<le> 1"
    using reachable_invariant[OF assms(1)] by (simp add: invariant_def queue_invariant_def)
  with assms(2) have rest: "rest = []" by simp
  show ?thesis
    using assms(2) rest
    by (simp add: connection_state_of_def consume_def connecting_result_def running_eq)
qed

theorem connect_success_replays_queue_in_order_witness:
  "reachable connecting_client \<and> awaited connecting_client = [(0, ''localhost'', 4242)] \<and>
   tasks connecting_client = [\<lparr>op = add_atom, lhs = 3, rhs = 4\<rparr>, \<lparr>op = sub_atom, lhs = 9, rhs = 5\<rparr>] \<and>
   (\<exists>self'. consume (connect_response 0 (Inr (1, Some 7, {}))) connecting_client = Some self' \<and>
      current_server self' = Some 7 \<and>
      effects self' =
        [request_await 0 middleman infinite_timeout (connect_msg ''localhost'' 4242),
         aout successfully_connected, monitor 7,
         request_then 1 (peer 7) task_timeout (arith_msg add_atom 3 4),
         request_then 2 (peer 7) task_timeout (arith_msg sub_atom 9 5)] \<and>
      tasks self' = [] \<and> bhvr self' = running_bhvr 7 \<and> connection_state_of self' = Running)"
proof -
  have a: "awaited connecting_client = (0, ''localhost'', 4242) # []"
    by (simp add: connecting_client_def)
  have b: "tasks connecting_client =
      [\<lparr>op = add_atom, lhs = 3, rhs = 4\<rparr>, \<lparr>op = sub_atom, lhs = 9, rhs = 5\<rparr>]"
    by (simp add: connecting_client_def queued_client_def)
  have c: "\<exists>self'. consume (connect_response 0 (Inr (1, Some 7, {}))) connecting_client = Some self' \<and>
      current_server self' = Some 7 \<and>
      effects self' =
        [request_await 0 middleman infinite_timeout (connect_msg ''localhost'' 4242),
         aout successfully_connected, monitor 7,
         request_then 1 (peer 7) task_timeout (arith_msg add_atom 3 4),
         request_then 2 (peer 7) task_timeout (arith_msg sub_atom 9 5)] \<and>
      tasks self' = [] \<and> bhvr self' = running_bhvr 7 \<and> connection_state_of self' = Running"
    using connect_success_replays_queue_in_order[OF reachable_connecting_client a, of 1 7]
    by (auto simp: connecting_client_def queued_client_def upt_conv_Cons)
  from reachable_connecting_client a b c show ?thesis by simp
qed

text \<open>
  The connect attempts that do end in the state Unconnected: every error the request
  reports, and a null handle or a typed actor when the connect message came under the
  behavior \<^verbatim>\<open>unconnected\<close>.
\<close>

lemma connect_failure_ends_unconnected:
  assumes "awaited self = [(rid, hst, prt)]"
  shows "\<exists>self'. consume (connect_response rid (Inl err)) self = Some self' \<and>
           effects self' = effects self @ [aout (cannot_connect hst prt err)] \<and>
           connection_state_of self' = Unconnected"
    and "bhvr self = unconnected_bhvr \<Longrightarrow>
         \<exists>self'. consume (connect_response rid (Inr (nid, None, ifs))) self = Some self' \<and>
           effects self' = effects self @ [aout (no_server_found hst prt)] \<and>
           connection_state_of self' = Unconnected"
    and "bhvr self = unconnected_bhvr \<Longrightarrow> ifs \<noteq> {} \<Longrightarrow>
         \<exists>self'. consume (connect_response rid (Inr (nid, Some hdl, ifs))) self = Some self' \<and>
           effects self' = effects self @ [aout (typed_actor_found hst prt)] \<and>
           connection_state_of self' = Unconnected"
  using assms
  by (simp_all add: consume_def connecting_error_def connecting_result_def connection_state_of_def)

text \<open>
  Claim C2. A connect attempt that does not yield a compatible peer should report an error
  and end in the state Unconnected. The code does not do so for a null handle or a typed
  actor when the connect message came under the behavior \<^verbatim>\<open>running\<close>: those two branches of
  the continuation return without \<^verbatim>\<open>become(unconnected(self))\<close>. At the failing input the
  client runs with the calculator 7, a connect message for another endpoint arrives, and
  the middleman finds no actor there: the client prints that no server was found, keeps
  the behavior \<^verbatim>\<open>running\<close> of the calculator 7 and is in the state Running, with no current
  server. The same happens for a typed actor.
\<close>

theorem failed_reconnect_stays_running:
  "reachable reconnecting_client \<and>
   connection_state_of reconnecting_client = Connecting \<and>
   consume (connect_response 3 (Inr (2, None, {}))) reconnecting_client =
     Some (reconnecting_client
            \<lparr>awaited := [],
             effects := effects reconnecting_client @ [aout (no_server_found ''otherhost'' 4243)]\<rparr>) \<and>
   bhvr (reconnecting_client
            \<lparr>awaited := [],
             effects := effects reconnecting_client @ [aout (no_server_found ''otherhost'' 4243)]\<rparr>) =
     running_bhvr 7 \<and>
   connection_state_of (reconnecting_client
            \<lparr>awaited := [],
             effects := effects reconnecting_client @ [aout (no_server_found ''otherhost'' 4243)]\<rparr>) =
     Running \<and>
   consume (connect_response 3 (Inr (2, Some 8, {''typed_interface''}))) reconnecting_client =
     Some (reconnecting_client
            \<lparr>awaited := [],
             effects := effects reconnecting_client @ [aout (typed_actor_found ''otherhost'' 4243)]\<rparr>)"
proof -
  have "connection_state_of reconnecting_client = Connecting"
    by (simp add: connection_state_of_def reconnecting_client_def)
  moreover have "consume (connect_response 3 (Inr (2, None, {}))) reconnecting_client =
     Some (reconnecting_client
            \<lparr>awaited := [],
             effects := effects reconnecting_client @ [aout (no_server_found ''otherhost'' 4243)]\<rparr>)"
    by (simp add: consume_def connecting_result_def reconnecting_client_def)
  moreover have "bhvr (reconnecting_client
            \<lparr>awaited := [],
             effects := effects reconnecting_client @ [aout (no_server_found ''otherhost'' 4243)]\<rparr>) =
     running_bhvr 7"
    by (simp add: reconnecting_client_def running_client_def)
  moreover have "connection_state_of (reconnecting_client
            \<lparr>awaited := [],
             effects := effects reconnecting_client @ [aout (no_server_found ''otherhost'' 4243)]\<rparr>) =
     Running"
    by (simp add: connection_state_of_def reconnecting_client_def running_client_def)
  moreover have "consume (connect_response 3 (Inr (2, Some 8, {''typed_interface''}))) reconnecting_client =
     Some (reconnecting_client
            \<lparr>awaited := [],
             effects := effects reconnecting_client @ [aout (typed_actor_found ''otherhost'' 4243)]\<rparr>)"
    by (simp add: consume_def connecting_result_def reconnecting_client_def)
  ultimately show ?thesis using reachable_reconnecting_client by blast
qed

text \<open>
  Claim C3. The down handler acts exactly when the source of the down message is the
  client's current server: then it prints that the connection is lost, clears the current
  server and takes the behavior \<^verbatim>\<open>unconnected\<close>, so the client is Unconnected. For any other
  source the client stays as it is. A client that awaits no request hands every down
  message to this handler.
\<close>

theorem down_handler_acts_on_current_server_only:
  fixes self :: client
  shows "(source = current_server self \<longrightarrow>
            down_handler source self =
              self\<lparr>effects := effects self @ [aout lost_connection],
                   current_server := None, bhvr := unconnected_bhvr\<rparr>) \<and>
         (source \<noteq> current_server self \<longrightarrow> down_handler source self = self) \<and>
         (down_handler source self \<noteq> self \<longleftrightarrow> source = current_server self) \<and>
         (awaited self = [] \<longrightarrow>
            consume (down_msg source) self = Some (down_handler source self) \<and>
            (source = current_server self \<longrightarrow>
               connection_state_of (down_handler source self) = Unconnected))"
proof -
  have "self\<lparr>effects := effects self @ [aout lost_connection],
               current_server := None, bhvr := unconnected_bhvr\<rparr> \<noteq> self"
  proof
    assume "self\<lparr>effects := effects self @ [aout lost_connection],
               current_server := None, bhvr := unconnected_bhvr\<rparr> = self"
    then have "effects (self\<lparr>effects := effects self @ [aout lost_connection],
               current_server := None, bhvr := unconnected_bhvr\<rparr>) = effects self"
      by (rule arg_cong)
    then show False by simp
  qed
  then show ?thesis
    by (simp add: down_handler_def consume_def connection_state_of_def)
qed

theorem down_handler_acts_on_current_server_only_witness:
  "current_server reconnected_client = Some 8 \<and>
   connection_state_of reconnected_client = Running \<and>
   consume (down_msg (Some 7)) reconnected_client = Some reconnected_client \<and>
   consume (down_msg (Some 8)) reconnected_client =
     Some (reconnected_client\<lparr>effects := effects reconnected_client @ [aout lost_connection],
             current_server := None, bhvr := unconnected_bhvr\<rparr>) \<and>
   connection_state_of (down_handler (Some 8) reconnected_client) = Unconnected"
proof -
  have a: "awaited reconnected_client = []" and c: "current_server reconnected_client = Some 8"
    and r: "connection_state_of reconnected_client = Running"
    by (simp_all add: reconnected_client_def connection_state_of_def)
  have stale: "consume (down_msg (Some 7)) reconnected_client = Some reconnected_client"
    using down_handler_acts_on_current_server_only[of "Some 7" reconnected_client]
    by (simp add: a c)
  have current: "consume (down_msg (Some 8)) reconnected_client =
     Some (reconnected_client\<lparr>effects := effects reconnected_client @ [aout lost_connection],
             current_server := None, bhvr := unconnected_bhvr\<rparr>)"
    and unconnected: "connection_state_of (down_handler (Some 8) reconnected_client) = Unconnected"
    using down_handler_acts_on_current_server_only[of "Some 8" reconnected_client]
    by (auto simp: a c)
  from c r stale current unconnected show ?thesis by blast
qed

section \<open>Retry of failed requests\<close>

lemma filter_fresh_id:
  "\<forall>p \<in> set ps. fst p < (n::nat) \<Longrightarrow> filter (\<lambda>p. fst p \<noteq> n) ps = ps"
  by (induction ps) auto

lemma map_of_fresh_id:
  "\<forall>p \<in> set ps. fst p < (n::nat) \<Longrightarrow> map_of (ps @ [(n, v)]) n = Some v"
  by (induction ps) auto

lemma failing_round_retries:
  assumes "fresh_ids self" and "awaited self = []" and "bhvr self = running_bhvr calculator"
    and "mailbox self = [msg (arith_msg opr x y)]"
  shows "failing_round err self =
           Some (self\<lparr>effects := effects self @
                        [request_then (next_id self) (peer calculator) task_timeout (arith_msg opr x y)],
                      next_id := Suc (next_id self)\<rparr>)"
proof -
  have ids: "\<forall>p \<in> set (pending self). fst p < next_id self"
    using assms(1) by (simp add: fresh_ids_def)
  have first: "resume self = Some (send_task calculator opr x y (self\<lparr>mailbox := []\<rparr>))"
    using assms(2-4) by (cases opr) (simp_all add: resume_def consume_def)
  let ?s = "send_task calculator opr x y (self\<lparr>mailbox := []\<rparr>)"
  have pend: "pending ?s = pending self @ [(next_id self, opr, x, y)]"
    by (simp add: send_task_def)
  have found: "map_of (pending ?s) (next_id self) = Some (opr, x, y)"
    unfolding pend using ids by (rule map_of_fresh_id)
  have removed: "filter (\<lambda>p. fst p \<noteq> next_id self) (pending ?s) = pending self"
    unfolding pend using ids by (simp add: filter_fresh_id)
  have "consume (calc_response (next_id self) (Inl err)) (?s\<lparr>mailbox := []\<rparr>) =
          Some (send_task_error opr x y err (?s\<lparr>mailbox := [], pending := pending self\<rparr>))"
    using assms(2) found removed by (simp add: consume_def)
  then have "resume (enqueue (calc_response (next_id self) (Inl err)) ?s) =
          Some (send_task_error opr x y err (?s\<lparr>mailbox := [], pending := pending self\<rparr>))"
    by (simp add: resume_def enqueue_def)
  moreover have "send_task_error opr x y err (?s\<lparr>mailbox := [], pending := pending self\<rparr>) =
          self\<lparr>effects := effects self @
                  [request_then (next_id self) (peer calculator) task_timeout (arith_msg opr x y)],
                next_id := Suc (next_id self)\<rparr>"
    using assms(4) by (simp add: send_task_error_def send_task_def)
  ultimately have second: "resume (enqueue (calc_response (next_id self) (Inl err)) ?s) =
           Some (self\<lparr>effects := effects self @
                        [request_then (next_id self) (peer calculator) task_timeout (arith_msg opr x y)],
                      next_id := Suc (next_id self)\<rparr>)"
    by simp
  show ?thesis by (simp add: failing_round_def first second)
qed

lemma failing_rounds_retry:
  assumes "fresh_ids self" and "awaited self = []" and "bhvr self = running_bhvr calculator"
    and "mailbox self = [msg (arith_msg opr x y)]"
  shows "failing_rounds k err self =
           Some (self\<lparr>effects := effects self @
                        map (\<lambda>i. request_then i (peer calculator) task_timeout (arith_msg opr x y))
                          [next_id self ..< next_id self + k],
                      next_id := next_id self + k\<rparr>)"
  using assms
proof (induction k arbitrary: self)
  case 0
  show ?case by simp
next
  case (Suc k)
  let ?s = "self\<lparr>effects := effects self @
                [request_then (next_id self) (peer calculator) task_timeout (arith_msg opr x y)],
              next_id := Suc (next_id self)\<rparr>"
  have round: "failing_round err self = Some ?s"
    using Suc.prems by (rule failing_round_retries)
  have "fresh_ids ?s" using Suc.prems(1) by (auto simp: fresh_ids_def less_Suc_eq)
  then have "failing_rounds k err ?s =
           Some (?s\<lparr>effects := effects ?s @
                        map (\<lambda>i. request_then i (peer calculator) task_timeout (arith_msg opr x y))
                          [next_id ?s ..< next_id ?s + k],
                      next_id := next_id ?s + k\<rparr>)"
    using Suc.prems(2-4) by (intro Suc.IH) simp_all
  then show ?case
    by (simp add: round upt_conv_Cons del: upt_Suc)
qed

text \<open>
  Claim C4. A pending arithmetic request of a reachable client stands in the log as a
  request to a peer with \<^verbatim>\<open>task_timeout\<close>. When it resolves to a failure, whatever the error,
  the request is no longer pending and the message with the same operation and operands is
  at the tail of the client's own mailbox; the task queue and everything else stay as they
  are. Under the behavior \<^verbatim>\<open>running\<close> the next mailbox cycle sends the request again, and
  against a peer that fails every request this repeats for any number of rounds: \<open>k\<close>
  rounds send \<open>k\<close> more requests for the same operation and operands.
\<close>

theorem request_failure_resubmits_to_own_mailbox:
  assumes "reachable self" and "awaited self = []" and "(rid, opr, x, y) \<in> set (pending self)"
  shows "(\<exists>calculator. request_then rid (peer calculator) task_timeout (arith_msg opr x y)
            \<in> set (effects self)) \<and>
         consume (calc_response rid (Inl err)) self =
           Some (self\<lparr>pending := filter (\<lambda>p. fst p \<noteq> rid) (pending self),
                      mailbox := mailbox self @ [msg (arith_msg opr x y)]\<rparr>) \<and>
         (mailbox self = [] \<and> bhvr self = running_bhvr calculator \<longrightarrow>
            failing_rounds k err'
              (self\<lparr>pending := filter (\<lambda>p. fst p \<noteq> rid) (pending self),
                    mailbox := [msg (arith_msg opr x y)]\<rparr>) =
            Some (self\<lparr>pending := filter (\<lambda>p. fst p \<noteq> rid) (pending self),
                       mailbox := [msg (arith_msg opr x y)],
                       effects := effects self @
                         map (\<lambda>i. request_then i (peer calculator) task_timeout (arith_msg opr x y))
                           [next_id self ..< next_id self + k],
                       next_id := next_id self + k\<rparr>))"
proof -
  have inv: "invariant self" using assms(1) by (rule reachable_invariant)
  then have fresh: "fresh_ids self" and logged: "pending_logged self"
    by (simp_all add: invariant_def)
  have sent: "\<exists>calculator. request_then rid (peer calculator) task_timeout (arith_msg opr x y)
            \<in> set (effects self)"
    using logged assms(3) by (auto simp: pending_logged_def request_logged_def)
  have "map_of (pending self) rid = Some (opr, x, y)"
    using fresh assms(3) by (auto simp: fresh_ids_def intro: map_of_is_SomeI)
  then have failure: "consume (calc_response rid (Inl err)) self =
           Some (self\<lparr>pending := filter (\<lambda>p. fst p \<noteq> rid) (pending self),
                      mailbox := mailbox self @ [msg (arith_msg opr x y)]\<rparr>)"
    using assms(2) by (simp add: consume_def send_task_error_def)
  have rounds: "failing_rounds k err'
              (self\<lparr>pending := filter (\<lambda>p. fst p \<noteq> rid) (pending self),
                    mailbox := [msg (arith_msg opr x y)]\<rparr>) =
            Some (self\<lparr>pending := filter (\<lambda>p. fst p \<noteq> rid) (pending self),
                       mailbox := [msg (arith_msg opr x y)],
                       effects := effects self @
                         map (\<lambda>i. request_then i (peer calculator) task_timeout (arith_msg opr x y))
                           [next_id self ..< next_id self + k],
                       next_id := next_id self + k\<rparr>)"
    if "bhvr self = running_bhvr calculator"
  proof -
    let ?s = "self\<lparr>pending := filter (\<lambda>p. fst p \<noteq> rid) (pending self),
                    mailbox := [msg (arith_msg opr x y)]\<rparr>"
    have "fresh_ids ?s" using fresh by (simp add: fresh_ids_remove)
    moreover have "awaited ?s = []" using assms(2) by simp
    moreover have "bhvr ?s = running_bhvr calculator" using that by simp
    moreover have "mailbox ?s = [msg (arith_msg opr x y)]" by simp
    ultimately have "failing_rounds k err' ?s =
           Some (?s\<lparr>effects := effects ?s @
                        map (\<lambda>i. request_then i (peer calculator) task_timeout (arith_msg opr x y))
                          [next_id ?s ..< next_id ?s + k],
                      next_id := next_id ?s + k\<rparr>)"
      by (rule failing_rounds_retry)
    then show ?thesis by simp
  qed
  from sent failure rounds show ?thesis by blast
qed

theorem request_failure_resubmits_to_own_mailbox_witness:
  "reachable running_client \<and> awaited running_client = [] \<and>
   (1, add_atom, 3, 4) \<in> set (pending running_client) \<and>
   mailbox running_client = [] \<and> bhvr running_client = running_bhvr 7 \<and>
   request_then 1 (peer 7) task_timeout (arith_msg add_atom 3 4) \<in> set (effects running_client) \<and>
   consume (calc_response 1 (Inl request_timeout)) running_client =
     Some (running_client\<lparr>pending := [(2, sub_atom, 9, 5)],
                          mailbox := [msg (arith_msg add_atom 3 4)]\<rparr>) \<and>
   failing_rounds 3 request_timeout
     (running_client\<lparr>pending := [(2, sub_atom, 9, 5)], mailbox := [msg (arith_msg add_atom 3 4)]\<rparr>) =
     Some (running_client\<lparr>pending := [(2, sub_atom, 9, 5)],
             mailbox := [msg (arith_msg add_atom 3 4)],
             effects := effects running_client @
               [request_then 3 (peer 7) task_timeout (arith_msg add_atom 3 4),
                request_then 4 (peer 7) task_timeout (arith_msg add_atom 3 4),
                request_then 5 (peer 7) task_timeout (arith_msg add_atom 3 4)],
             next_id := 6\<rparr>)"
proof -
  have a: "awaited running_client = []"
    and p: "(1, add_atom, 3, 4) \<in> set (pending running_client)"
    and m: "mailbox running_client = []"
    and b: "bhvr running_client = running_bhvr 7"
    and l: "request_then 1 (peer 7) task_timeout (arith_msg add_atom 3 4) \<in> set (effects running_client)"
    by (simp_all add: running_client_def)
  have f: "filter (\<lambda>p. fst p \<noteq> Suc 0) (pending running_client) = [(2, sub_atom, 9, 5)]"
    and n: "next_id running_client = 3"
    by (simp_all add: running_client_def)
  note t = request_failure_resubmits_to_own_mailbox[OF reachable_running_client a p,
      of request_timeout 7 3 request_timeout]
  from t have c: "consume (calc_response 1 (Inl request_timeout)) running_client =
     Some (running_client\<lparr>pending := [(2, sub_atom, 9, 5)],
                          mailbox := [msg (arith_msg add_atom 3 4)]\<rparr>)"
    by (simp add: f m)
  from t m b have r: "failing_rounds 3 request_timeout
     (running_client\<lparr>pending := [(2, sub_atom, 9, 5)], mailbox := [msg (arith_msg add_atom 3 4)]\<rparr>) =
     Some (running_client\<lparr>pending := [(2, sub_atom, 9, 5)],
             mailbox := [msg (arith_msg add_atom 3 4)],
             effects := effects running_client @
               [request_then 3 (peer 7) task_timeout (arith_msg add_atom 3 4),
                request_then 4 (peer 7) task_timeout (arith_msg add_atom 3 4),
                request_then 5 (peer 7) task_timeout (arith_msg add_atom 3 4)],
             next_id := 6\<rparr>)"
    by (simp add: f n)
  from reachable_running_client a p m b l c r show ?thesis by blast
qed

section \<open>The task queue\<close>

text \<open>
  Claim C5. In every reachable state with a non-empty task queue the behavior is
  \<^verbatim>\<open>unconnected\<close>, so the client is not Running. An arithmetic message handled by
  \<^verbatim>\<open>unconnected\<close> is appended to the queue; the continuation of a successful connect leaves
  the queue empty; and whatever a client with the behavior \<^verbatim>\<open>running\<close> handles, the queue
  stays as it is or is emptied, so nothing is appended.
\<close>

theorem task_queue_nonempty_only_when_not_running:
  fixes self :: client
  shows "(reachable self \<longrightarrow> tasks self \<noteq> [] \<longrightarrow>
            bhvr self = unconnected_bhvr \<and> connection_state_of self \<noteq> Running) \<and>
         tasks (unconnected (arith_msg opr x y) self) = tasks self @ [\<lparr>op = opr, lhs = x, rhs = y\<rparr>] \<and>
         tasks (connecting_result hst prt nid (Some hdl) {} self) = [] \<and>
         (bhvr self = running_bhvr calculator \<and> consume e self = Some self' \<longrightarrow>
            tasks self' = tasks self \<or> tasks self' = [])"
proof -
  have queue: "bhvr self = unconnected_bhvr \<and> connection_state_of self \<noteq> Running"
    if "reachable self" and "tasks self \<noteq> []"
  proof -
    have "queue_invariant self"
      using reachable_invariant[OF that(1)] by (simp add: invariant_def)
    with that(2) show ?thesis
      by (simp add: queue_invariant_def connection_state_of_def)
  qed
  have append: "tasks (unconnected (arith_msg opr x y) self) =
      tasks self @ [\<lparr>op = opr, lhs = x, rhs = y\<rparr>]"
    by (cases opr) simp_all
  have clear: "tasks (connecting_result hst prt nid (Some hdl) {} self) = []"
    by (simp add: connecting_result_def)
  have running: "tasks self' = tasks self \<or> tasks self' = []"
    if b: "bhvr self = running_bhvr calculator" and c: "consume e self = Some self'"
    using c
  proof (cases rule: consume_cases)
    case (resolved rid hst prt rest nid serv ifs)
    then show ?thesis by (auto simp: connecting_result_def split: option.splits)
  next
    case (failed rid hst prt rest err)
    then show ?thesis by (simp add: connecting_error_def)
  next
    case (unconnected m)
    with b show ?thesis by simp
  next
    case (running m calculator)
    then show ?thesis
      by (cases "(calculator, m, self)" rule: running_handlers.cases)
         (simp_all add: connecting_def)
  next
    case (down source)
    then show ?thesis by (simp add: down_handler_def)
  next
    case dropped
    then show ?thesis by simp
  next
    case (result rid opr x y r)
    then show ?thesis by (simp add: send_task_result_def)
  next
    case (error rid opr x y err)
    then show ?thesis by (simp add: send_task_error_def)
  qed
  from queue append clear running show ?thesis by blast
qed

theorem task_queue_nonempty_only_when_not_running_witness:
  "reachable queued_client \<and> tasks queued_client \<noteq> [] \<and>
   bhvr queued_client = unconnected_bhvr \<and> connection_state_of queued_client \<noteq> Running \<and>
   tasks (unconnected (arith_msg add_atom 1 2) queued_client) =
     tasks queued_client @ [\<lparr>op = add_atom, lhs = 1, rhs = 2\<rparr>] \<and>
   tasks (connecting_result ''localhost'' 4242 1 (Some 7) {} queued_client) = [] \<and>
   bhvr running_client = running_bhvr 7 \<and>
   consume (msg (arith_msg add_atom 1 2)) running_client =
     Some (send_task 7 add_atom 1 2 running_client) \<and>
   tasks (send_task 7 add_atom 1 2 running_client) = []"
proof -
  have q: "tasks queued_client \<noteq> []" by (simp add: queued_client_def)
  have b: "bhvr running_client = running_bhvr 7" and t: "tasks running_client = []"
    by (simp_all add: running_client_def)
  have c: "consume (msg (arith_msg add_atom 1 2)) running_client =
     Some (send_task 7 add_atom 1 2 running_client)"
    by (simp add: consume_def running_client_def)
  note unconnected =
    task_queue_nonempty_only_when_not_running[of queued_client add_atom 1 2 "''localhost''" 4242 1 7]
  note running =
    task_queue_nonempty_only_when_not_running[of running_client _ _ _ _ _ _ _ 7
      "msg (arith_msg add_atom 1 2)" "send_task 7 add_atom 1 2 running_client"]
  from unconnected reachable_queued_client q
  have u: "bhvr queued_client = unconnected_bhvr \<and> connection_state_of queued_client \<noteq> Running \<and>
     tasks (unconnected (arith_msg add_atom 1 2) queued_client) =
       tasks queued_client @ [\<lparr>op = add_atom, lhs = 1, rhs = 2\<rparr>] \<and>
     tasks (connecting_result ''localhost'' 4242 1 (Some 7) {} queued_client) = []"
    by blast
  from running b c t have r: "tasks (send_task 7 add_atom 1 2 running_client) = []"
    by auto
  from reachable_queued_client q u b c r show ?thesis by blast
qed

section \<open>Deadlines of the requests\<close>

text \<open>
  Claim C6, as stated, fails for the connect request: \<^verbatim>\<open>connecting\<close> sends it with the timeout
  \<^verbatim>\<open>infinite\<close>, so it carries no deadline.
\<close>

theorem connect_request_carries_no_deadline:
  "\<not> (\<forall>e \<in> set (effects (connecting ''localhost'' 4242 init)). carries_deadline e)"
  by (simp add: connecting_def init_def carries_deadline_def timeout_of_def)

text \<open>
  Claim C6, amended. In every reachable state, each request in continuation mode went to
  a peer with an arithmetic message and the deadline of ten seconds, and each awaited
  request went to the middleman with a connect message and the timeout \<^verbatim>\<open>infinite\<close>. A
  pending arithmetic request resolves to failure in the same way for a timeout as for any
  other error, and once: afterwards its correlation id is no longer pending and a
  further response for it changes nothing. The awaited connect request resolves to failure
  through its error continuation for every error, and once as well.
\<close>

theorem arithmetic_requests_carry_deadline:
  assumes "reachable self"
  shows "(\<forall>rid dest t m. request_then rid dest t m \<in> set (effects self) \<longrightarrow>
            t = seconds 10 \<and> carries_deadline (request_then rid dest t m) \<and>
            (\<exists>c. dest = peer c) \<and> (\<exists>opr x y. m = arith_msg opr x y)) \<and>
         (\<forall>rid dest t m. request_await rid dest t m \<in> set (effects self) \<longrightarrow>
            t = infinite_timeout \<and> dest = middleman \<and> (\<exists>h p. m = connect_msg h p)) \<and>
         (\<forall>rid opr x y err. awaited self = [] \<and> (rid, opr, x, y) \<in> set (pending self) \<longrightarrow>
            (\<exists>self'. consume (calc_response rid (Inl err)) self = Some self' \<and>
               consume (calc_response rid (Inl request_timeout)) self = Some self' \<and>
               rid \<notin> fst ` set (pending self') \<and>
               (\<forall>r. consume (calc_response rid r) self' = Some self'))) \<and>
         (\<forall>rid hst prt err. awaited self = [(rid, hst, prt)] \<longrightarrow>
            (\<exists>self'. consume (connect_response rid (Inl err)) self = Some self' \<and>
               self' = connecting_error hst prt err (self\<lparr>awaited := []\<rparr>) \<and>
               awaited self' = [] \<and>
               (\<forall>r. consume (connect_response rid r) self' = Some self')))"
proof -
  have inv: "invariant self" using assms by (rule reachable_invariant)
  then have fresh: "fresh_ids self" and timeouts: "request_timeouts self"
    by (simp_all add: invariant_def)
  have continuation: "t = seconds 10 \<and> carries_deadline (request_then rid dest t m) \<and>
            (\<exists>c. dest = peer c) \<and> (\<exists>opr x y. m = arith_msg opr x y)"
    if "request_then rid dest t m \<in> set (effects self)" for rid dest t m
    using timeouts that
    by (force simp: request_timeouts_def task_timeout_def carries_deadline_def timeout_of_def)
  have await: "t = infinite_timeout \<and> dest = middleman \<and> (\<exists>h p. m = connect_msg h p)"
    if "request_await rid dest t m \<in> set (effects self)" for rid dest t m
    using timeouts that by (force simp: request_timeouts_def)
  have once: "\<exists>self'. consume (calc_response rid (Inl err)) self = Some self' \<and>
               consume (calc_response rid (Inl request_timeout)) self = Some self' \<and>
               rid \<notin> fst ` set (pending self') \<and>
               (\<forall>r. consume (calc_response rid r) self' = Some self')"
    if a: "awaited self = []" and p: "(rid, opr, x, y) \<in> set (pending self)" for rid opr x y err
  proof -
    let ?s = "self\<lparr>pending := filter (\<lambda>p. fst p \<noteq> rid) (pending self),
                   mailbox := mailbox self @ [msg (arith_msg opr x y)]\<rparr>"
    have found: "map_of (pending self) rid = Some (opr, x, y)"
      using fresh p by (auto simp: fresh_ids_def intro: map_of_is_SomeI)
    have failure: "consume (calc_response rid (Inl e)) self = Some ?s" for e
      using a found by (simp add: consume_def send_task_error_def)
    have gone: "rid \<notin> fst ` set (pending ?s)" by auto
    then have "map_of (pending ?s) rid = None" by (simp add: map_of_eq_None_iff)
    then have "consume (calc_response rid r) ?s = Some ?s" for r
      using a by (simp add: consume_def)
    with failure gone show ?thesis by blast
  qed
  have connect: "\<exists>self'. consume (connect_response rid (Inl err)) self = Some self' \<and>
               self' = connecting_error hst prt err (self\<lparr>awaited := []\<rparr>) \<and>
               awaited self' = [] \<and>
               (\<forall>r. consume (connect_response rid r) self' = Some self')"
    if "awaited self = [(rid, hst, prt)]" for rid hst prt err
    using that by (simp add: consume_def connecting_error_def)
  have c1: "\<forall>rid dest t m. request_then rid dest t m \<in> set (effects self) \<longrightarrow>
            t = seconds 10 \<and> carries_deadline (request_then rid dest t m) \<and>
            (\<exists>c. dest = peer c) \<and> (\<exists>opr x y. m = arith_msg opr x y)"
    by (intro allI impI) (rule continuation)
  have c2: "\<forall>rid dest t m. request_await rid dest t m \<in> set (effects self) \<longrightarrow>
            t = infinite_timeout \<and> dest = middleman \<and> (\<exists>h p. m = connect_msg h p)"
    by (intro allI impI) (rule await)
  have c3: "\<forall>rid opr x y err. awaited self = [] \<and> (rid, opr, x, y) \<in> set (pending self) \<longrightarrow>
            (\<exists>self'. consume (calc_response rid (Inl err)) self = Some self' \<and>
               consume (calc_response rid (Inl request_timeout)) self = Some self' \<and>
               rid \<notin> fst ` set (pending self') \<and>
               (\<forall>r. consume (calc_response rid r) self' = Some self'))"
    by (intro allI impI, elim conjE) (rule once)
  have c4: "\<forall>rid hst prt err. awaited self = [(rid, hst, prt)] \<longrightarrow>
            (\<exists>self'. consume (connect_response rid (Inl err)) self = Some self' \<and>
               self' = connecting_error hst prt err (self\<lparr>awaited := []\<rparr>) \<and>
               awaited self' = [] \<and>
               (\<forall>r. consume (connect_response rid r) self' = Some self'))"
    by (intro allI impI) (rule connect)
  show ?thesis by (rule conjI[OF c1 conjI[OF c2 conjI[OF c3 c4]]])
qed

theorem arithmetic_requests_carry_deadline_witness:
  "reachable running_client \<and>
   request_then 1 (peer 7) (seconds 10) (arith_msg add_atom 3 4) \<in> set (effects running_client) \<and>
   carries_deadline (request_then 1 (peer 7) (seconds 10) (arith_msg add_atom 3 4)) \<and>
   request_await 0 middleman infinite_timeout (connect_msg ''localhost'' 4242)
     \<in> set (effects running_client) \<and>
   awaited running_client = [] \<and> (1, add_atom, 3, 4) \<in> set (pending running_client) \<and>
   (\<exists>self'. consume (calc_response 1 (Inl peer_unreachable)) running_client = Some self' \<and>
      consume (calc_response 1 (Inl request_timeout)) running_client = Some self' \<and>
      1 \<notin> fst ` set (pending self') \<and>
      consume (calc_response 1 (Inl request_timeout)) self' = Some self') \<and>
   reachable connecting_client \<and> awaited connecting_client = [(0, ''localhost'', 4242)] \<and>
   (\<exists>self'. consume (connect_response 0 (Inl resolution_failed)) connecting_client = Some self' \<and>
      awaited self' = [] \<and>
      consume (connect_response 0 (Inl resolution_failed)) self' = Some self')"
proof -
  have l: "request_then 1 (peer 7) (seconds 10) (arith_msg add_atom 3 4) \<in> set (effects running_client)"
    and w: "request_await 0 middleman infinite_timeout (connect_msg ''localhost'' 4242)
     \<in> set (effects running_client)"
    and a: "awaited running_client = []" and p: "(1, add_atom, 3, 4) \<in> set (pending running_client)"
    by (simp_all add: running_client_def task_timeout_def)
  have c: "awaited connecting_client = [(0, ''localhost'', 4242)]"
    by (simp add: connecting_client_def)
  note running = arithmetic_requests_carry_deadline[OF reachable_running_client]
  note connecting = arithmetic_requests_carry_deadline[OF reachable_connecting_client]
  have d: "carries_deadline (request_then 1 (peer 7) (seconds 10) (arith_msg add_atom 3 4))"
    using running[THEN conjunct1, rule_format, OF l] by (rule conjunct2[THEN conjunct1])
  obtain s where s: "consume (calc_response 1 (Inl peer_unreachable)) running_client = Some s"
      "consume (calc_response 1 (Inl request_timeout)) running_client = Some s"
      "1 \<notin> fst ` set (pending s)" "\<forall>r. consume (calc_response 1 r) s = Some s"
    using running[THEN conjunct2, THEN conjunct2, THEN conjunct1, rule_format,
        OF conjI[OF a p], of peer_unreachable]
    by (elim exE conjE)
  have o: "\<exists>self'. consume (calc_response 1 (Inl peer_unreachable)) running_client = Some self' \<and>
      consume (calc_response 1 (Inl request_timeout)) running_client = Some self' \<and>
      1 \<notin> fst ` set (pending self') \<and>
      consume (calc_response 1 (Inl request_timeout)) self' = Some self'"
    using s by (intro exI[of _ s]) simp
  obtain s' where s': "consume (connect_response 0 (Inl resolution_failed)) connecting_client = Some s'"
      "awaited s' = []" "\<forall>r. consume (connect_response 0 r) s' = Some s'"
    using connecting[THEN conjunct2, THEN conjunct2, THEN conjunct2, rule_format,
        OF c, of resolution_failed]
    by (elim exE conjE)
  have e: "\<exists>self'. consume (connect_response 0 (Inl resolution_failed)) connecting_client = Some self' \<and>
      awaited self' = [] \<and>
      consume (connect_response 0 (Inl resolution_failed)) self' = Some self'"
    using s' by (intro exI[of _ s']) simp
  show ?thesis
    using reachable_running_client l d w a p o reachable_connecting_client c e
    by (intro conjI)
qed

section \<open>A failure that arrives after the connection is lost\<close>

lemma reachable_disconnected_client: "reachable disconnected_client"
  by (rule step_reachable[OF reachable_running_client, of "down_msg (Some 7)"])
     (simp add: resume_def enqueue_def consume_def down_handler_def disconnected_client_def
        running_client_def)

lemma map2_upt_snoc:
  "map2 f [n ..< n + length (ts @ [t])] (ts @ [t]) =
     map2 f [n ..< n + length ts] ts @ [f (n + length ts) t]"
proof -
  have "[n ..< n + length (ts @ [t])] = [n ..< n + length ts] @ [n + length ts]"
    by simp
  then have "zip [n ..< n + length (ts @ [t])] (ts @ [t]) =
      zip ([n ..< n + length ts] @ [n + length ts]) (ts @ [t])"
    by (rule arg_cong)
  also have "\<dots> = zip [n ..< n + length ts] ts @ [(n + length ts, t)]"
    by (subst zip_append) simp_all
  finally show ?thesis by simp
qed

text \<open>
  With nothing else in the mailbox: the failure of a pending request of an unconnected
  client puts the message with its operation and operands into the mailbox, the next
  mailbox cycle hands it to \<^verbatim>\<open>unconnected\<close>, which appends the task to the queue, and after
  the next connect message and a successful connect request the client is Running and has
  sent one request per queued task in the order of the queue, the re-submitted operation
  last.
\<close>

lemma resent_operation_is_replayed_last:
  assumes "reachable self" and "connection_state_of self = Unconnected"
    and "(rid, opr, x, y) \<in> set (pending self)"
  shows "\<exists>s1. consume (calc_response rid (Inl err)) self = Some s1 \<and>
           mailbox s1 = mailbox self @ [msg (arith_msg opr x y)] \<and>
           tasks s1 = tasks self \<and>
           connection_state_of s1 = Unconnected \<and>
           (mailbox self = [] \<longrightarrow>
              (\<exists>s2. resume s1 = Some s2 \<and>
                 tasks s2 = tasks self @ [\<lparr>op = opr, lhs = x, rhs = y\<rparr>] \<and>
                 mailbox s2 = [] \<and>
                 next_id s2 = next_id self \<and>
                 connection_state_of s2 = Unconnected \<and>
                 (\<exists>s3 s4. resume (enqueue (msg (connect_msg hst prt)) s2) = Some s3 \<and>
                    connection_state_of s3 = Connecting \<and>
                    resume (enqueue (connect_response (next_id s2) (Inr (nid, Some hdl, {}))) s3) = Some s4 \<and>
                    connection_state_of s4 = Running \<and>
                    tasks s4 = [] \<and>
                    effects s4 = effects self @
                      [request_await (next_id self) middleman infinite_timeout (connect_msg hst prt),
                       aout successfully_connected, monitor hdl] @
                      map2 (\<lambda>i t. request_then i (peer hdl) task_timeout (arith_msg (op t) (lhs t) (rhs t)))
                        [Suc (next_id self) ..< Suc (next_id self) + length (tasks self)] (tasks self) @
                      [request_then (Suc (next_id self) + length (tasks self)) (peer hdl) task_timeout
                         (arith_msg opr x y)])))"
proof -
  have unconnected: "awaited self = []" "bhvr self = unconnected_bhvr"
    using assms(2)
    by (auto simp: connection_state_of_def split: if_splits behavior.splits)
  have fresh: "fresh_ids self"
    using reachable_invariant[OF assms(1)] by (simp add: invariant_def)
  have found: "map_of (pending self) rid = Some (opr, x, y)"
    using fresh assms(3) by (auto simp: fresh_ids_def intro: map_of_is_SomeI)
  let ?s1 = "self\<lparr>pending := filter (\<lambda>p. fst p \<noteq> rid) (pending self),
                  mailbox := mailbox self @ [msg (arith_msg opr x y)]\<rparr>"
  have first: "consume (calc_response rid (Inl err)) self = Some ?s1"
    using unconnected(1) found by (simp add: consume_def send_task_error_def)
  have state1: "connection_state_of ?s1 = Unconnected"
    using unconnected by (simp add: connection_state_of_def)
  have later: "\<exists>s2. resume ?s1 = Some s2 \<and>
                 tasks s2 = tasks self @ [\<lparr>op = opr, lhs = x, rhs = y\<rparr>] \<and>
                 mailbox s2 = [] \<and>
                 next_id s2 = next_id self \<and>
                 connection_state_of s2 = Unconnected \<and>
                 (\<exists>s3 s4. resume (enqueue (msg (connect_msg hst prt)) s2) = Some s3 \<and>
                    connection_state_of s3 = Connecting \<and>
                    resume (enqueue (connect_response (next_id s2) (Inr (nid, Some hdl, {}))) s3) = Some s4 \<and>
                    connection_state_of s4 = Running \<and>
                    tasks s4 = [] \<and>
                    effects s4 = effects self @
                      [request_await (next_id self) middleman infinite_timeout (connect_msg hst prt),
                       aout successfully_connected, monitor hdl] @
                      map2 (\<lambda>i t. request_then i (peer hdl) task_timeout (arith_msg (op t) (lhs t) (rhs t)))
                        [Suc (next_id self) ..< Suc (next_id self) + length (tasks self)] (tasks self) @
                      [request_then (Suc (next_id self) + length (tasks self)) (peer hdl) task_timeout
                         (arith_msg opr x y)])"
    if empty: "mailbox self = []"
  proof -
    let ?s2 = "self\<lparr>pending := filter (\<lambda>p. fst p \<noteq> rid) (pending self),
                    tasks := tasks self @ [\<lparr>op = opr, lhs = x, rhs = y\<rparr>],
                    mailbox := []\<rparr>"
    let ?s3 = "connecting hst prt ?s2"
    let ?s4 = "connecting_result hst prt nid (Some hdl) {} (?s3\<lparr>awaited := []\<rparr>)"
    have second: "resume ?s1 = Some ?s2"
      using unconnected empty by (cases opr) (simp_all add: resume_def consume_def)
    have third: "resume (enqueue (msg (connect_msg hst prt)) ?s2) = Some ?s3"
      using unconnected by (simp add: resume_def enqueue_def consume_def)
    have awaited3: "awaited ?s3 = [(next_id ?s2, hst, prt)]" and mailbox3: "mailbox ?s3 = []"
      using unconnected by (simp_all add: connecting_def)
    have fourth: "resume (enqueue (connect_response (next_id ?s2) (Inr (nid, Some hdl, {}))) ?s3) = Some ?s4"
      using unconnected
      by (cases self) (simp add: resume_def enqueue_def consume_def connecting_def)
    have state3: "connection_state_of ?s3 = Connecting"
      using awaited3 by (simp add: connection_state_of_def)
    have state4: "connection_state_of ?s4 = Running" "tasks ?s4 = []"
      by (simp_all add: connection_state_of_def connecting_result_def)
    let ?f = "\<lambda>i t. request_then i (peer hdl) task_timeout (arith_msg (op t) (lhs t) (rhs t))"
    let ?before = "effects self @
        [request_await (next_id self) middleman infinite_timeout (connect_msg hst prt),
         aout successfully_connected, monitor hdl]"
    have "effects ?s4 = ?before @
        map2 ?f [Suc (next_id self) ..< Suc (next_id self) + length (tasks self @ [\<lparr>op = opr, lhs = x, rhs = y\<rparr>])]
          (tasks self @ [\<lparr>op = opr, lhs = x, rhs = y\<rparr>])"
      by (simp add: connecting_result_def running_eq connecting_def del: upt_Suc)
    also have "\<dots> = ?before @
        (map2 ?f [Suc (next_id self) ..< Suc (next_id self) + length (tasks self)] (tasks self) @
         [?f (Suc (next_id self) + length (tasks self)) \<lparr>op = opr, lhs = x, rhs = y\<rparr>])"
      by (simp only: map2_upt_snoc)
    finally have effects4: "effects ?s4 = effects self @
                      [request_await (next_id self) middleman infinite_timeout (connect_msg hst prt),
                       aout successfully_connected, monitor hdl] @
                      map2 (\<lambda>i t. request_then i (peer hdl) task_timeout (arith_msg (op t) (lhs t) (rhs t)))
                        [Suc (next_id self) ..< Suc (next_id self) + length (tasks self)] (tasks self) @
                      [request_then (Suc (next_id self) + length (tasks self)) (peer hdl) task_timeout
                         (arith_msg opr x y)]"
      by (simp del: upt_Suc)
    have "tasks ?s2 = tasks self @ [\<lparr>op = opr, lhs = x, rhs = y\<rparr>]" "mailbox ?s2 = []"
      "next_id ?s2 = next_id self" "connection_state_of ?s2 = Unconnected"
      using unconnected by (simp_all add: connection_state_of_def)
    with second third fourth state3 state4 effects4 show ?thesis
      by (intro exI[of _ ?s2] exI[of _ ?s3] exI[of _ ?s4] conjI)
  qed
  show ?thesis
    apply (rule exI[of _ ?s1])
    apply (intro conjI impI)
        apply (rule first)
       apply simp
      apply simp
     apply (rule state1)
    apply (erule later)
    done
qed

lemma reachable_racing_client: "reachable racing_client"
proof -
  have "reachable (enqueue (calc_response 1 (Inl request_timeout)) disconnected_client)"
    using reachable_disconnected_client by (rule reachable_enqueue)
  then have "reachable (enqueue (msg (connect_msg ''localhost'' 4242))
      (enqueue (calc_response 1 (Inl request_timeout)) disconnected_client))"
    by (rule reachable_enqueue)
  then show ?thesis
    by (simp add: enqueue_def racing_client_def disconnected_client_def running_client_def)
qed

text \<open>
  Claim C9, as stated, fails when a connect message is ahead in the mailbox: the failure
  puts the operation behind the connect message, the connect request is awaited and
  resolves, and the operation is then handled by the behavior \<^verbatim>\<open>running\<close> of the new
  calculator, which sends it at once. It never enters the task queue.
\<close>

theorem resent_operation_can_bypass_the_queue:
  "reachable racing_client \<and>
   connection_state_of racing_client = Unconnected \<and>
   resume racing_client = Some racing_resent \<and>
   tasks racing_resent = [] \<and>
   resume racing_resent = Some racing_connecting \<and>
   tasks racing_connecting = [] \<and>
   resume (enqueue (connect_response 3 (Inr (1, Some 8, {}))) racing_connecting) = Some racing_running \<and>
   tasks racing_running = [] \<and>
   bhvr racing_running = running_bhvr 8 \<and>
   mailbox racing_running = [msg (arith_msg add_atom 3 4)] \<and>
   resume racing_running = Some (send_task 8 add_atom 3 4 (racing_running\<lparr>mailbox := []\<rparr>)) \<and>
   tasks (send_task 8 add_atom 3 4 (racing_running\<lparr>mailbox := []\<rparr>)) = [] \<and>
   last (effects (send_task 8 add_atom 3 4 (racing_running\<lparr>mailbox := []\<rparr>))) =
     request_then 4 (peer 8) task_timeout (arith_msg add_atom 3 4)"
proof -
  have "connection_state_of racing_client = Unconnected"
    by (simp add: connection_state_of_def racing_client_def disconnected_client_def running_client_def)
  moreover have "resume racing_client = Some racing_resent"
    by (simp add: resume_def consume_def send_task_error_def racing_client_def racing_resent_def
          disconnected_client_def running_client_def)
  moreover have "resume racing_resent = Some racing_connecting"
    by (simp add: resume_def consume_def connecting_def racing_resent_def racing_connecting_def
          disconnected_client_def running_client_def)
  moreover have "resume (enqueue (connect_response 3 (Inr (1, Some 8, {}))) racing_connecting) =
      Some racing_running"
    by (simp add: resume_def enqueue_def consume_def connecting_result_def running_def
          racing_connecting_def racing_running_def disconnected_client_def running_client_def)
  moreover have "resume racing_running = Some (send_task 8 add_atom 3 4 (racing_running\<lparr>mailbox := []\<rparr>))"
    by (simp add: resume_def consume_def racing_running_def disconnected_client_def
          running_client_def)
  moreover have "tasks racing_resent = []" "tasks racing_connecting = []" "tasks racing_running = []"
    "bhvr racing_running = running_bhvr 8" "mailbox racing_running = [msg (arith_msg add_atom 3 4)]"
    "tasks (send_task 8 add_atom 3 4 (racing_running\<lparr>mailbox := []\<rparr>)) = []"
    "last (effects (send_task 8 add_atom 3 4 (racing_running\<lparr>mailbox := []\<rparr>))) =
       request_then 4 (peer 8) task_timeout (arith_msg add_atom 3 4)"
    by (simp_all add: send_task_def racing_resent_def racing_connecting_def racing_running_def
          disconnected_client_def running_client_def)
  ultimately show ?thesis using reachable_racing_client by (intro conjI)
qed

text \<open>What a mailbox cycle leaves in the mailbox, and what becomes of a queued task.\<close>

lemma consume_mailbox_grows:
  assumes "consume e self = Some self'"
  shows "\<exists>extra. mailbox self' = mailbox self @ extra"
  using assms
proof (cases rule: consume_cases)
  case (resolved rid hst prt rest nid serv ifs)
  then show ?thesis by (auto simp: connecting_result_def split: option.splits)
next
  case (failed rid hst prt rest err)
  then show ?thesis by (simp add: connecting_error_def)
next
  case (unconnected m)
  then show ?thesis
    by (cases "(m, self)" rule: unconnected.cases) (simp_all add: connecting_def)
next
  case (running m calculator)
  then show ?thesis
    by (cases "(calculator, m, self)" rule: running_handlers.cases) (simp_all add: connecting_def)
next
  case (down source)
  then show ?thesis by (simp add: down_handler_def)
next
  case dropped
  then show ?thesis by simp
next
  case (result rid opr x y r)
  then show ?thesis by (simp add: send_task_result_def)
next
  case (error rid opr x y err)
  then show ?thesis by (simp add: send_task_error_def)
qed

lemma resume_from_handles_one:
  "resume_from skipped es self = Some self' \<Longrightarrow>
   \<exists>pre e post extra. es = pre @ e # post \<and>
      consume e (self\<lparr>mailbox := skipped @ pre @ post\<rparr>) = Some self' \<and>
      mailbox self' = skipped @ pre @ post @ extra"
proof (induction es arbitrary: skipped)
  case Nil
  then show ?case by simp
next
  case (Cons e es)
  show ?case
  proof (cases "consume e (self\<lparr>mailbox := skipped @ es\<rparr>)")
    case (Some c)
    with Cons.prems have c: "c = self'" by simp
    from consume_mailbox_grows[OF Some] obtain extra where "mailbox c = skipped @ es @ extra"
      by auto
    with Some c have "e # es = [] @ e # es \<and>
        consume e (self\<lparr>mailbox := skipped @ [] @ es\<rparr>) = Some self' \<and>
        mailbox self' = skipped @ [] @ es @ extra"
      by simp
    then show ?thesis by blast
  next
    case None
    with Cons.prems have "resume_from (skipped @ [e]) es self = Some self'" by simp
    from Cons.IH[OF this] obtain pre e' post extra where
      "es = pre @ e' # post"
      "consume e' (self\<lparr>mailbox := (skipped @ [e]) @ pre @ post\<rparr>) = Some self'"
      "mailbox self' = (skipped @ [e]) @ pre @ post @ extra"
      by blast
    then have "e # es = (e # pre) @ e' # post \<and>
        consume e' (self\<lparr>mailbox := skipped @ (e # pre) @ post\<rparr>) = Some self' \<and>
        mailbox self' = skipped @ (e # pre) @ post @ extra"
      by simp
    then show ?thesis by blast
  qed
qed

lemma resume_keeps_or_handles:
  assumes "resume self = Some self'" and "e \<in> set (mailbox self)"
  shows "e \<in> set (mailbox self') \<or>
         (\<exists>pre post. mailbox self = pre @ e # post \<and>
            consume e (self\<lparr>mailbox := pre @ post\<rparr>) = Some self')"
proof -
  from assms(1) obtain pre e' post extra where split: "mailbox self = pre @ e' # post"
    and handled: "consume e' (self\<lparr>mailbox := pre @ post\<rparr>) = Some self'"
    and left: "mailbox self' = pre @ post @ extra"
    using resume_from_handles_one[of "[]" "mailbox self" self self']
    by (auto simp: resume_def)
  show ?thesis
  proof (cases "e \<in> set pre \<or> e \<in> set post")
    case True
    with left show ?thesis by auto
  next
    case False
    with assms(2) split have "e' = e" by auto
    with split handled show ?thesis by blast
  qed
qed

lemma zip_upt_member:
  assumes "t \<in> set ts"
  shows "\<exists>i. (i, t) \<in> set (zip [n ..< n + length ts] ts)"
proof -
  from assms obtain k where k: "k < length ts" and t: "ts ! k = t"
    by (auto simp: in_set_conv_nth)
  then have "(n + k, t) = zip [n ..< n + length ts] ts ! k" by simp
  moreover have "k < length (zip [n ..< n + length ts] ts)" using k by simp
  ultimately have "(n + k, t) \<in> set (zip [n ..< n + length ts] ts)"
    by (metis nth_mem)
  then show ?thesis by blast
qed

lemma running_sends_every_task:
  assumes "t \<in> set (tasks self)"
  shows "\<exists>i. request_then i (peer hdl) task_timeout (arith_msg (op t) (lhs t) (rhs t))
           \<in> set (effects (running hdl self))"
proof -
  from zip_upt_member[OF assms, of "next_id self"] obtain i where
    "(i, t) \<in> set (zip [next_id self ..< next_id self + length (tasks self)] (tasks self))"
    by blast
  then have "request_then i (peer hdl) task_timeout (arith_msg (op t) (lhs t) (rhs t))
      \<in> set (map2 (\<lambda>i t. request_then i (peer hdl) task_timeout (arith_msg (op t) (lhs t) (rhs t)))
          [next_id self ..< next_id self + length (tasks self)] (tasks self))"
    by force
  then have "request_then i (peer hdl) task_timeout (arith_msg (op t) (lhs t) (rhs t))
      \<in> set (effects self @
          map2 (\<lambda>i t. request_then i (peer hdl) task_timeout (arith_msg (op t) (lhs t) (rhs t)))
            [next_id self ..< next_id self + length (tasks self)] (tasks self))"
    by simp
  moreover have "effects (running hdl self) = effects self @
          map2 (\<lambda>i t. request_then i (peer hdl) task_timeout (arith_msg (op t) (lhs t) (rhs t)))
            [next_id self ..< next_id self + length (tasks self)] (tasks self)"
    by (simp add: running_eq)
  ultimately have "request_then i (peer hdl) task_timeout (arith_msg (op t) (lhs t) (rhs t))
      \<in> set (effects (running hdl self))"
    by (simp only:)
  then show ?thesis by (rule exI)
qed

lemma queued_task_is_kept_or_sent:
  assumes "consume e self = Some self'" and "t \<in> set (tasks self)"
  shows "t \<in> set (tasks self') \<or>
         (\<exists>i hdl. request_then i (peer hdl) task_timeout (arith_msg (op t) (lhs t) (rhs t))
            \<in> set (effects self'))"
  using assms(1)
proof (cases rule: consume_cases)
  case (resolved rid hst prt rest nid serv ifs)
  show ?thesis
  proof (cases "serv \<noteq> None \<and> ifs = {}")
    case True
    then obtain hdl where serv: "serv = Some hdl" and ifs: "ifs = {}" by auto
    let ?s = "self\<lparr>awaited := rest, current_server := serv,
            effects := effects self @ [aout successfully_connected, monitor hdl]\<rparr>"
    have "t \<in> set (tasks ?s)" using assms(2) by simp
    from running_sends_every_task[OF this, of hdl] obtain i where
      "request_then i (peer hdl) task_timeout (arith_msg (op t) (lhs t) (rhs t))
         \<in> set (effects (running hdl ?s))"
      by blast
    moreover have "effects self' = effects (running hdl ?s)"
      using resolved serv ifs by (simp add: connecting_result_def running_eq)
    ultimately show ?thesis by auto
  next
    case False
    with resolved assms(2) show ?thesis
      by (auto simp: connecting_result_def split: option.splits)
  qed
next
  case (failed rid hst prt rest err)
  with assms(2) show ?thesis by (simp add: connecting_error_def)
next
  case (unconnected m)
  with assms(2) show ?thesis
    by (cases "(m, self)" rule: unconnected.cases) (simp_all add: connecting_def)
next
  case (running m calculator)
  with assms(2) show ?thesis
    by (cases "(calculator, m, self)" rule: running_handlers.cases) (simp_all add: connecting_def)
next
  case (down source)
  with assms(2) show ?thesis by (simp add: down_handler_def)
next
  case dropped
  with assms(2) show ?thesis by simp
next
  case (result rid opr x y r)
  with assms(2) show ?thesis by (simp add: send_task_result_def)
next
  case (error rid opr x y err)
  with assms(2) show ?thesis by (simp add: send_task_error_def)
qed

lemma connect_success_sends_queued_task:
  assumes "awaited self = (rid, hst, prt) # rest" and "t \<in> set (tasks self)"
  shows "\<exists>self' i. consume (connect_response rid (Inr (nid, Some hdl, {}))) self = Some self' \<and>
           request_then i (peer hdl) task_timeout (arith_msg (op t) (lhs t) (rhs t))
             \<in> set (effects self') \<and>
           tasks self' = [] \<and> bhvr self' = running_bhvr hdl"
proof -
  let ?s = "self\<lparr>awaited := rest, current_server := Some hdl,
            effects := effects self @ [aout successfully_connected, monitor hdl]\<rparr>"
  let ?s' = "(running hdl ?s)\<lparr>bhvr := running_bhvr hdl\<rparr>"
  have step: "consume (connect_response rid (Inr (nid, Some hdl, {}))) self = Some ?s'"
    using assms(1) by (simp add: consume_def connecting_result_def)
  have "t \<in> set (tasks ?s)" using assms(2) by simp
  from running_sends_every_task[OF this, of hdl] obtain i where
    "request_then i (peer hdl) task_timeout (arith_msg (op t) (lhs t) (rhs t))
       \<in> set (effects (running hdl ?s))"
    by blast
  then have "request_then i (peer hdl) task_timeout (arith_msg (op t) (lhs t) (rhs t))
       \<in> set (effects ?s')"
    by simp
  moreover have "tasks ?s' = []" "bhvr ?s' = running_bhvr hdl" by simp_all
  ultimately show ?thesis using step by blast
qed

text \<open>
  Claim C9, amended. The client is Unconnected and an arithmetic request is still pending.
  When the request resolves to a failure, the message with its operation and operands joins
  the tail of the client's mailbox, and it is not dropped: a mailbox cycle leaves it in the
  mailbox or handles it, and while a connect request is awaited it is skipped. Handled
  under the behavior \<^verbatim>\<open>unconnected\<close> the operation is appended to the task queue, where it
  stays until a request for it is sent, and the next successful connect sends a request
  for it to the new calculator. Handled under the behavior \<^verbatim>\<open>running\<close>, after a connect that
  succeeded in the meantime, it is sent to that calculator at once and is not queued.
\<close>

theorem resent_operation_is_queued_or_sent:
  assumes "reachable self" and "connection_state_of self = Unconnected"
    and "(rid, opr, x, y) \<in> set (pending self)"
  shows "(\<exists>s1. consume (calc_response rid (Inl err)) self = Some s1 \<and>
            mailbox s1 = mailbox self @ [msg (arith_msg opr x y)] \<and>
            tasks s1 = tasks self \<and>
            connection_state_of s1 = Unconnected) \<and>
         (\<forall>s s'. resume s = Some s' \<and> msg (arith_msg opr x y) \<in> set (mailbox s) \<longrightarrow>
            msg (arith_msg opr x y) \<in> set (mailbox s') \<or>
            (\<exists>pre post. mailbox s = pre @ msg (arith_msg opr x y) # post \<and>
               consume (msg (arith_msg opr x y)) (s\<lparr>mailbox := pre @ post\<rparr>) = Some s')) \<and>
         (\<forall>s. awaited s \<noteq> [] \<longrightarrow> consume (msg (arith_msg opr x y)) s = None) \<and>
         (\<forall>s. awaited s = [] \<and> bhvr s = unconnected_bhvr \<longrightarrow>
            consume (msg (arith_msg opr x y)) s =
              Some (s\<lparr>tasks := tasks s @ [\<lparr>op = opr, lhs = x, rhs = y\<rparr>]\<rparr>)) \<and>
         (\<forall>s calculator. awaited s = [] \<and> bhvr s = running_bhvr calculator \<longrightarrow>
            consume (msg (arith_msg opr x y)) s = Some (send_task calculator opr x y s)) \<and>
         (\<forall>s e s'. consume e s = Some s' \<and> \<lparr>op = opr, lhs = x, rhs = y\<rparr> \<in> set (tasks s) \<longrightarrow>
            \<lparr>op = opr, lhs = x, rhs = y\<rparr> \<in> set (tasks s') \<or>
            (\<exists>i hdl. request_then i (peer hdl) task_timeout (arith_msg opr x y)
               \<in> set (effects s'))) \<and>
         (\<forall>s rid' hst prt rest nid hdl.
            awaited s = (rid', hst, prt) # rest \<and> \<lparr>op = opr, lhs = x, rhs = y\<rparr> \<in> set (tasks s) \<longrightarrow>
            (\<exists>s' i. consume (connect_response rid' (Inr (nid, Some hdl, {}))) s = Some s' \<and>
               request_then i (peer hdl) task_timeout (arith_msg opr x y) \<in> set (effects s') \<and>
               tasks s' = [] \<and> bhvr s' = running_bhvr hdl))"
proof -
  have unconnected: "awaited self = []" "bhvr self = unconnected_bhvr"
    using assms(2)
    by (auto simp: connection_state_of_def split: if_splits behavior.splits)
  have fresh: "fresh_ids self"
    using reachable_invariant[OF assms(1)] by (simp add: invariant_def)
  have found: "map_of (pending self) rid = Some (opr, x, y)"
    using fresh assms(3) by (auto simp: fresh_ids_def intro: map_of_is_SomeI)
  let ?s1 = "self\<lparr>pending := filter (\<lambda>p. fst p \<noteq> rid) (pending self),
                  mailbox := mailbox self @ [msg (arith_msg opr x y)]\<rparr>"
  have "consume (calc_response rid (Inl err)) self = Some ?s1"
    using unconnected(1) found by (simp add: consume_def send_task_error_def)
  moreover have "connection_state_of ?s1 = Unconnected"
    using unconnected by (simp add: connection_state_of_def)
  ultimately have p1: "\<exists>s1. consume (calc_response rid (Inl err)) self = Some s1 \<and>
            mailbox s1 = mailbox self @ [msg (arith_msg opr x y)] \<and>
            tasks s1 = tasks self \<and>
            connection_state_of s1 = Unconnected"
    by (intro exI[of _ ?s1]) simp
  have p2: "\<forall>s s'. resume s = Some s' \<and> msg (arith_msg opr x y) \<in> set (mailbox s) \<longrightarrow>
            msg (arith_msg opr x y) \<in> set (mailbox s') \<or>
            (\<exists>pre post. mailbox s = pre @ msg (arith_msg opr x y) # post \<and>
               consume (msg (arith_msg opr x y)) (s\<lparr>mailbox := pre @ post\<rparr>) = Some s')"
    by (intro allI impI, elim conjE) (rule resume_keeps_or_handles)
  have p3: "\<forall>s. awaited s \<noteq> [] \<longrightarrow> consume (msg (arith_msg opr x y)) s = None"
    by (auto simp: consume_def split: list.splits)
  have p4: "\<forall>s. awaited s = [] \<and> bhvr s = unconnected_bhvr \<longrightarrow>
            consume (msg (arith_msg opr x y)) s =
              Some (s\<lparr>tasks := tasks s @ [\<lparr>op = opr, lhs = x, rhs = y\<rparr>]\<rparr>)"
    by (cases opr) (simp_all add: consume_def)
  have p5: "\<forall>s calculator. awaited s = [] \<and> bhvr s = running_bhvr calculator \<longrightarrow>
            consume (msg (arith_msg opr x y)) s = Some (send_task calculator opr x y s)"
    by (cases opr) (simp_all add: consume_def)
  have p6: "\<forall>s e s'. consume e s = Some s' \<and> \<lparr>op = opr, lhs = x, rhs = y\<rparr> \<in> set (tasks s) \<longrightarrow>
            \<lparr>op = opr, lhs = x, rhs = y\<rparr> \<in> set (tasks s') \<or>
            (\<exists>i hdl. request_then i (peer hdl) task_timeout (arith_msg opr x y)
               \<in> set (effects s'))"
  proof (intro allI impI, elim conjE)
    fix s e s'
    assume "consume e s = Some s'" and "\<lparr>op = opr, lhs = x, rhs = y\<rparr> \<in> set (tasks s)"
    from queued_task_is_kept_or_sent[OF this]
    show "\<lparr>op = opr, lhs = x, rhs = y\<rparr> \<in> set (tasks s') \<or>
            (\<exists>i hdl. request_then i (peer hdl) task_timeout (arith_msg opr x y)
               \<in> set (effects s'))"
      by simp
  qed
  have p7: "\<forall>s rid' hst prt rest nid hdl.
            awaited s = (rid', hst, prt) # rest \<and> \<lparr>op = opr, lhs = x, rhs = y\<rparr> \<in> set (tasks s) \<longrightarrow>
            (\<exists>s' i. consume (connect_response rid' (Inr (nid, Some hdl, {}))) s = Some s' \<and>
               request_then i (peer hdl) task_timeout (arith_msg opr x y) \<in> set (effects s') \<and>
               tasks s' = [] \<and> bhvr s' = running_bhvr hdl)"
  proof (intro allI impI, elim conjE)
    fix s :: client and rid' hst prt rest nid hdl
    assume "awaited s = (rid', hst, prt) # rest" and "\<lparr>op = opr, lhs = x, rhs = y\<rparr> \<in> set (tasks s)"
    from connect_success_sends_queued_task[OF this, of nid hdl]
    show "\<exists>s' i. consume (connect_response rid' (Inr (nid, Some hdl, {}))) s = Some s' \<and>
               request_then i (peer hdl) task_timeout (arith_msg opr x y) \<in> set (effects s') \<and>
               tasks s' = [] \<and> bhvr s' = running_bhvr hdl"
      by simp
  qed
  show ?thesis
    by (rule conjI[OF p1 conjI[OF p2 conjI[OF p3 conjI[OF p4 conjI[OF p5 conjI[OF p6 p7]]]]]])
qed

theorem resent_operation_is_queued_or_sent_witness:
  "reachable disconnected_client \<and> connection_state_of disconnected_client = Unconnected \<and>
   (1, add_atom, 3, 4) \<in> set (pending disconnected_client) \<and>
   (\<exists>s1. consume (calc_response 1 (Inl request_timeout)) disconnected_client = Some s1 \<and>
      mailbox s1 = [msg (arith_msg add_atom 3 4)] \<and> tasks s1 = []) \<and>
   resume racing_resent = Some racing_connecting \<and>
   msg (arith_msg add_atom 3 4) \<in> set (mailbox racing_resent) \<and>
   (msg (arith_msg add_atom 3 4) \<in> set (mailbox racing_connecting) \<or>
    (\<exists>pre post. mailbox racing_resent = pre @ msg (arith_msg add_atom 3 4) # post \<and>
       consume (msg (arith_msg add_atom 3 4)) (racing_resent\<lparr>mailbox := pre @ post\<rparr>) =
         Some racing_connecting)) \<and>
   msg (arith_msg add_atom 3 4) \<in> set (mailbox racing_connecting) \<and>
   awaited racing_connecting \<noteq> [] \<and>
   consume (msg (arith_msg add_atom 3 4)) racing_connecting = None \<and>
   consume (msg (connect_msg ''localhost'' 4242)) queued_client = Some connecting_client \<and>
   \<lparr>op = add_atom, lhs = 3, rhs = 4\<rparr> \<in> set (tasks queued_client) \<and>
   (\<lparr>op = add_atom, lhs = 3, rhs = 4\<rparr> \<in> set (tasks connecting_client) \<or>
    (\<exists>i hdl. request_then i (peer hdl) task_timeout (arith_msg add_atom 3 4)
       \<in> set (effects connecting_client))) \<and>
   awaited disconnected_client = [] \<and> bhvr disconnected_client = unconnected_bhvr \<and>
   consume (msg (arith_msg add_atom 3 4)) disconnected_client =
     Some (disconnected_client\<lparr>tasks := [\<lparr>op = add_atom, lhs = 3, rhs = 4\<rparr>]\<rparr>) \<and>
   awaited running_client = [] \<and> bhvr running_client = running_bhvr 7 \<and>
   consume (msg (arith_msg add_atom 3 4)) running_client =
     Some (send_task 7 add_atom 3 4 running_client) \<and>
   awaited connecting_client = [(0, ''localhost'', 4242)] \<and>
   \<lparr>op = add_atom, lhs = 3, rhs = 4\<rparr> \<in> set (tasks connecting_client) \<and>
   (\<exists>s' i. consume (connect_response 0 (Inr (1, Some 7, {}))) connecting_client = Some s' \<and>
      request_then i (peer 7) task_timeout (arith_msg add_atom 3 4) \<in> set (effects s') \<and>
      tasks s' = [] \<and> bhvr s' = running_bhvr 7)"
proof -
  have u: "connection_state_of disconnected_client = Unconnected"
    and p: "(1, add_atom, 3, 4) \<in> set (pending disconnected_client)"
    and m: "mailbox disconnected_client = []"
    and t: "tasks disconnected_client = []"
    and a: "awaited disconnected_client = []"
    and b: "bhvr disconnected_client = unconnected_bhvr"
    by (simp_all add: disconnected_client_def running_client_def connection_state_of_def)
  have ac: "awaited racing_connecting \<noteq> []"
    by (simp add: racing_connecting_def)
  have ar: "awaited running_client = []" and br: "bhvr running_client = running_bhvr 7"
    by (simp_all add: running_client_def)
  have aw: "awaited connecting_client = (0, ''localhost'', 4242) # []"
    and q: "\<lparr>op = add_atom, lhs = 3, rhs = 4\<rparr> \<in> set (tasks connecting_client)"
    by (simp_all add: connecting_client_def queued_client_def)
  note inst = resent_operation_is_queued_or_sent[OF reachable_disconnected_client u p,
      of request_timeout]
  obtain s1 where "consume (calc_response 1 (Inl request_timeout)) disconnected_client = Some s1"
      "mailbox s1 = mailbox disconnected_client @ [msg (arith_msg add_atom 3 4)]"
      "tasks s1 = tasks disconnected_client"
    using inst[THEN conjunct1] by (elim exE conjE)
  then have w1: "\<exists>s1. consume (calc_response 1 (Inl request_timeout)) disconnected_client = Some s1 \<and>
      mailbox s1 = [msg (arith_msg add_atom 3 4)] \<and> tasks s1 = []"
    by (intro exI[of _ s1]) (simp add: m t)
  have r: "resume racing_resent = Some racing_connecting"
    by (simp add: resume_def consume_def connecting_def racing_resent_def racing_connecting_def
          disconnected_client_def running_client_def)
  have mr: "msg (arith_msg add_atom 3 4) \<in> set (mailbox racing_resent)"
    and mc: "msg (arith_msg add_atom 3 4) \<in> set (mailbox racing_connecting)"
    by (simp_all add: racing_resent_def racing_connecting_def)
  have w2: "msg (arith_msg add_atom 3 4) \<in> set (mailbox racing_connecting) \<or>
    (\<exists>pre post. mailbox racing_resent = pre @ msg (arith_msg add_atom 3 4) # post \<and>
       consume (msg (arith_msg add_atom 3 4)) (racing_resent\<lparr>mailbox := pre @ post\<rparr>) =
         Some racing_connecting)"
    using inst[THEN conjunct2, THEN conjunct1, rule_format, OF conjI[OF r mr]] .
  have k: "consume (msg (connect_msg ''localhost'' 4242)) queued_client = Some connecting_client"
    by (simp add: consume_def connecting_def queued_client_def connecting_client_def)
  have qq: "\<lparr>op = add_atom, lhs = 3, rhs = 4\<rparr> \<in> set (tasks queued_client)"
    by (simp add: queued_client_def)
  have w6: "\<lparr>op = add_atom, lhs = 3, rhs = 4\<rparr> \<in> set (tasks connecting_client) \<or>
    (\<exists>i hdl. request_then i (peer hdl) task_timeout (arith_msg add_atom 3 4)
       \<in> set (effects connecting_client))"
    using inst[THEN conjunct2, THEN conjunct2, THEN conjunct2, THEN conjunct2, THEN conjunct2,
        THEN conjunct1, rule_format, OF conjI[OF k qq]] .
  have w3: "consume (msg (arith_msg add_atom 3 4)) racing_connecting = None"
    using inst[THEN conjunct2, THEN conjunct2, THEN conjunct1, rule_format, OF ac] .
  have w4: "consume (msg (arith_msg add_atom 3 4)) disconnected_client =
     Some (disconnected_client\<lparr>tasks := [\<lparr>op = add_atom, lhs = 3, rhs = 4\<rparr>]\<rparr>)"
    using inst[THEN conjunct2, THEN conjunct2, THEN conjunct2, THEN conjunct1, rule_format,
        OF conjI[OF a b]]
    by (simp add: t)
  have w5: "consume (msg (arith_msg add_atom 3 4)) running_client =
     Some (send_task 7 add_atom 3 4 running_client)"
    using inst[THEN conjunct2, THEN conjunct2, THEN conjunct2, THEN conjunct2, THEN conjunct1,
        rule_format, OF conjI[OF ar br]] .
  have w7: "\<exists>s' i. consume (connect_response 0 (Inr (1, Some 7, {}))) connecting_client = Some s' \<and>
      request_then i (peer 7) task_timeout (arith_msg add_atom 3 4) \<in> set (effects s') \<and>
      tasks s' = [] \<and> bhvr s' = running_bhvr 7"
    using inst[THEN conjunct2, THEN conjunct2, THEN conjunct2, THEN conjunct2, THEN conjunct2,
        THEN conjunct2, rule_format, OF conjI[OF aw q], of 1 7] .
  have aw': "awaited connecting_client = [(0, ''localhost'', 4242)]" using aw by simp
  from reachable_disconnected_client u p w1 r mr w2 mc ac w3 k qq w6 a b w4 ar br w5 aw' q w7
  show ?thesis
    by (intro conjI)
qed

section \<open>The interactive client: what reaches the client actor\<close>

lemma toint_connect: "toint ''connect'' = None"
  by (simp add: toint_def strtol_def subject_sequence_def isspace_def isdigit_def)

lemma toint_3: "toint ''3'' = Some 3"
  by (simp add: toint_def strtol_def subject_sequence_def isspace_def isdigit_def decimal_def)

lemma toint_4: "toint ''4'' = Some 4"
  by (simp add: toint_def strtol_def subject_sequence_def isspace_def isdigit_def decimal_def)




lemma repl_loop_done: "is_done r \<Longrightarrow> repl_loop input r = r"
  by (cases input) simp_all













text \<open>
  A port written with a sign is read by \<^verbatim>\<open>strtoul\<close> as well: a plus sign is accepted, and a
  minus sign negates the value in the unsigned type, so the range check sees the negated
  value. The amended claim is about ports written without a sign.
\<close>

lemma signed_port_is_sent:
  "eval_line [''connect'', ''localhost'', ''-18446744073709551615'']
     \<lparr>is_done = False, to_client = [], cout = []\<rparr> =
     \<lparr>is_done = False, to_client = [anon_send (connect_msg ''localhost'' 1)], cout = []\<rparr>"
  "eval_line [''connect'', ''localhost'', ''+80'']
     \<lparr>is_done = False, to_client = [], cout = []\<rparr> =
     \<lparr>is_done = False, to_client = [anon_send (connect_msg ''localhost'' 80)], cout = []\<rparr>"
  by (simp_all add: eval_line_def strtoul_def subject_sequence_def isspace_def isdigit_def
        decimal_def)



text \<open>
  Claim C10. A line of three words whose first and third word are integers and whose
  second word is neither \<^verbatim>\<open>+\<close> nor \<^verbatim>\<open>-\<close> matches the second handler, which does nothing: no
  message is sent, nothing is printed (the usage message neither), and the loop goes on as
  if the line had not been entered.
\<close>

theorem unknown_operator_is_silently_ignored:
  assumes "toint arg0 = Some x" and "toint arg2 = Some y" and "arg1 \<noteq> ''+''" and "arg1 \<noteq> ''-''"
  shows "eval [arg0, arg1, arg2] r = Some r \<and>
         eval_line [arg0, arg1, arg2] r = r \<and>
         repl_loop ([arg0, arg1, arg2] # input) r = repl_loop input r"
proof -
  have "arg0 \<noteq> ''connect''" using assms(1) toint_connect by auto
  then have handled: "eval [arg0, arg1, arg2] r = Some r" using assms by simp
  then have line: "eval_line [arg0, arg1, arg2] r = r" by (simp add: eval_line_def)
  have "repl_loop ([arg0, arg1, arg2] # input) r = repl_loop input r"
    by (cases "is_done r") (simp_all add: line repl_loop_done)
  with handled line show ?thesis by (intro conjI)
qed

theorem unknown_operator_is_silently_ignored_witness:
  "toint ''3'' = Some 3 \<and> toint ''4'' = Some 4 \<and>
   eval [''3'', ''*'', ''4''] \<lparr>is_done = False, to_client = [], cout = [usage_text]\<rparr> =
     Some \<lparr>is_done = False, to_client = [], cout = [usage_text]\<rparr> \<and>
   eval_line [''3'', ''*'', ''4''] \<lparr>is_done = False, to_client = [], cout = [usage_text]\<rparr> =
     \<lparr>is_done = False, to_client = [], cout = [usage_text]\<rparr> \<and>
   repl_loop [[''3'', ''*'', ''4'']] \<lparr>is_done = False, to_client = [], cout = [usage_text]\<rparr> =
     \<lparr>is_done = False, to_client = [], cout = [usage_text]\<rparr>"
proof -
  have ops: "''*'' \<noteq> ''+''" "''*'' \<noteq> ''-''" by simp_all
  show ?thesis
    using unknown_operator_is_silently_ignored[OF toint_3 toint_4 ops,
        of "\<lparr>is_done = False, to_client = [], cout = [usage_text]\<rparr>" "[]"]
      toint_3 toint_4
    by simp
qed

section \<open>The server's start\<close>

text \<open>
  Claim C8. When \<^verbatim>\<open>io::publish\<close> fails, \<^verbatim>\<open>run_server\<close> has spawned the calculator and
  announced the attempt, prints the error and returns: it reads no line, prints no success
  message and sends no exit message. When \<^verbatim>\<open>io::publish\<close> succeeds, it prints the port, waits
  for a line of input, and then sends the calculator the exit message.
\<close>

theorem publish_failure_stops_server:
  "run_server cfg (Inl err) =
     [spawn_calculator, cout_try_publish (port cfg), publish (port cfg), cerr_publish_failed err] \<and>
   getline \<notin> set (run_server cfg (Inl err)) \<and>
   (\<forall>reason. exit_calculator reason \<notin> set (run_server cfg (Inl err))) \<and>
   (\<forall>p. cout_published p \<notin> set (run_server cfg (Inl err))) \<and>
   run_server cfg (Inr p) =
     [spawn_calculator, cout_try_publish (port cfg), publish (port cfg), cout_published p,
      getline, cout_cya, exit_calculator user_shutdown]"
  by (simp add: run_server_def)

end
